(* ===== verification/Gost_Prelude.thy ===== *)
theory Gost_Prelude
  imports Main "HOL-Library.Word" "HOL-Library.Sublist" "HOL-Library.AList"
begin

text \<open>
  The layer of the Go language and its standard library that the modelled packages use, and the
  lemma collections the component theories share.

  A Go string is a byte sequence, here a \<^typ>\<open>string\<close>. The library's case and space functions
  work on Unicode; they are written out here for the ASCII bytes, which is what addresses, host
  names, keys and rule files of the program consist of: a byte above 127 is left as it is and is
  not a space. An index result of \<open>-1\<close> is \<^term>\<open>None\<close>. A run-time panic of the program is the value
  \<open>Panic\<close> of the type \<open>outcome\<close>, never an unspecified value.

  The last section has the list of the suffixes that the program tries when it looks a domain
  name up, which four packages walk with a loop of their own.
\<close>

named_theorems gost_defs "definitions unfolded by the component proofs"
named_theorems gost_spec "characterisations of the operations of a component"

section \<open>Outcomes\<close>

text \<open>A Go function either returns or panics.\<close>

datatype 'a outcome = Done 'a | Panic

fun bind_outcome :: "'a outcome \<Rightarrow> ('a \<Rightarrow> 'b outcome) \<Rightarrow> 'b outcome" where
  "bind_outcome (Done x) f = f x"
| "bind_outcome Panic f = Panic"

text \<open>
  A Go map whose order of iteration does not matter is an association list with distinct keys,
  read with \<^const>\<open>map_of\<close> and written with \<^const>\<open>AList.update\<close>.
\<close>

type_synonym ('k, 'v) gomap = "('k \<times> 'v) list"

section \<open>Bytes and strings\<close>

definition char_code :: "char \<Rightarrow> int" where
  "char_code c = of_char c"

definition is_space :: "char \<Rightarrow> bool" where
  "is_space c \<longleftrightarrow> char_code c = 32 \<or> (9 \<le> char_code c \<and> char_code c \<le> 13)"

definition is_digit :: "char \<Rightarrow> bool" where
  "is_digit c \<longleftrightarrow> 48 \<le> char_code c \<and> char_code c \<le> 57"

definition digit_val :: "char \<Rightarrow> int" where
  "digit_val c = char_code c - 48"

definition lower_char :: "char \<Rightarrow> char" where
  "lower_char c = (if 65 \<le> char_code c \<and> char_code c \<le> 90 then char_of (char_code c + 32) else c)"

definition upper_char :: "char \<Rightarrow> char" where
  "upper_char c = (if 97 \<le> char_code c \<and> char_code c \<le> 122 then char_of (char_code c - 32) else c)"

definition to_lower :: "string \<Rightarrow> string" where
  "to_lower s = map lower_char s"

definition to_upper :: "string \<Rightarrow> string" where
  "to_upper s = map upper_char s"

definition trim_space :: "string \<Rightarrow> string" where
  "trim_space s = rev (dropWhile is_space (rev (dropWhile is_space s)))"

definition tabs_to_blanks :: "string \<Rightarrow> string" where
  "tabs_to_blanks s = map (\<lambda>c. if char_code c = 9 then CHR '' '' else c) s"

definition has_prefix :: "string \<Rightarrow> string \<Rightarrow> bool" where
  "has_prefix s p \<longleftrightarrow> take (length p) s = p"

definition has_suffix :: "string \<Rightarrow> string \<Rightarrow> bool" where
  "has_suffix s p \<longleftrightarrow> length p \<le> length s \<and> drop (length s - length p) s = p"

text \<open>\<open>strings.IndexByte\<close> and its counterpart from the end.\<close>

fun index_byte :: "string \<Rightarrow> char \<Rightarrow> nat option" where
  "index_byte [] c = None"
| "index_byte (x # xs) c = (if x = c then Some 0 else map_option Suc (index_byte xs c))"

definition last_index_byte :: "string \<Rightarrow> char \<Rightarrow> nat option" where
  "last_index_byte s c = map_option (\<lambda>i. length s - 1 - i) (index_byte (rev s) c)"

text \<open>\<open>strings.Split\<close> with a one-byte separator.\<close>

fun split_on :: "char \<Rightarrow> string \<Rightarrow> string list" where
  "split_on c [] = [[]]"
| "split_on c (x # xs) =
     (if x = c then [] # split_on c xs
      else (case split_on c xs of [] \<Rightarrow> [[x]] | y # ys \<Rightarrow> (x # y) # ys))"

text \<open>\<open>strings.Contains\<close>.\<close>

definition contains_str :: "string \<Rightarrow> string \<Rightarrow> bool" where
  "contains_str s p \<longleftrightarrow> sublist p s"

section \<open>Numbers in strings\<close>

definition max_int64 :: int where
  "max_int64 = 2 ^ 63 - 1"

definition min_int64 :: int where
  "min_int64 = - (2 ^ 63)"

text \<open>Arithmetic on the 64-bit \<open>int\<close> wraps around.\<close>

definition wrap64 :: "int \<Rightarrow> int" where
  "wrap64 n = (n + 2 ^ 63) mod 2 ^ 64 - 2 ^ 63"

definition decimal :: "string \<Rightarrow> int" where
  "decimal s = foldl (\<lambda>n c. 10 * n + digit_val c) 0 s"

text \<open>
  \<open>strconv.Atoi\<close>: the value and whether the error is nil. A syntax error gives 0, a value out of
  range the nearest bound of \<open>int64\<close>; callers that drop the error see these.
\<close>

definition atoi :: "string \<Rightarrow> int \<times> bool" where
  "atoi s =
     (let neg = (s \<noteq> [] \<and> hd s = CHR ''-'');
          ds = (if s \<noteq> [] \<and> (hd s = CHR ''-'' \<or> hd s = CHR ''+'') then tl s else s)
      in if ds = [] \<or> \<not> list_all is_digit ds then (0, False)
         else let n = (if neg then - decimal ds else decimal ds)
              in if n > max_int64 then (max_int64, False)
                 else if n < min_int64 then (min_int64, False)
                 else (n, True))"

text \<open>\<open>strconv.Itoa\<close>.\<close>

function nat_digits :: "int \<Rightarrow> string" where
  "nat_digits n = (if n < 10 then [char_of (48 + n)]
                   else nat_digits (n div 10) @ [char_of (48 + n mod 10)])"
  by pat_completeness auto
termination
  by (relation "measure nat") auto

declare nat_digits.simps [simp del]

definition itoa :: "int \<Rightarrow> string" where
  "itoa n = (if n < 0 then CHR ''-'' # nat_digits (- n) else nat_digits n)"

section \<open>Host and port\<close>

text \<open>
  \<open>net.SplitHostPort\<close>: \<^term>\<open>None\<close> is an error, on which host and port are both empty. The
  checks are in the library's order.
\<close>

definition split_host_port :: "string \<Rightarrow> (string \<times> string) option" where
  "split_host_port hp =
     (case last_index_byte hp (CHR '':'') of
        None \<Rightarrow> None
      | Some i \<Rightarrow>
          if hd hp = CHR ''['' then
            (case index_byte hp (CHR '']'') of
               None \<Rightarrow> None
             | Some e \<Rightarrow>
                 if e + 1 = length hp then None
                 else if e + 1 \<noteq> i then None
                 else if CHR ''['' \<in> set (drop 1 hp) \<or> CHR '']'' \<in> set (drop (e + 1) hp) then None
                 else Some (take (e - 1) (drop 1 hp), drop (i + 1) hp))
          else if CHR '':'' \<in> set (take i hp) then None
          else if CHR ''['' \<in> set hp \<or> CHR '']'' \<in> set hp then None
          else Some (take i hp, drop (i + 1) hp))"

text \<open>The two results as the callers that drop the error read them.\<close>

definition split_host_port_raw :: "string \<Rightarrow> string \<times> string" where
  "split_host_port_raw hp = (case split_host_port hp of None \<Rightarrow> ([], []) | Some r \<Rightarrow> r)"

text \<open>\<open>net.JoinHostPort\<close>.\<close>

definition join_host_port :: "string \<Rightarrow> string \<Rightarrow> string" where
  "join_host_port h p =
     (if CHR '':'' \<in> set h then [CHR ''[''] @ h @ [CHR '']'', CHR '':''] @ p else h @ [CHR '':''] @ p)"

section \<open>The suffixes of a domain name\<close>

text \<open>
  The suffixes that begin at the dots of a name, from the longest, up to the first empty label:
  the candidates of the loop
  \<^verbatim>\<open>for { if index := strings.IndexByte(s, '.'); index > 0 { .. s[index:] ..; s = s[index+1:]; continue }; break }\<close>.
\<close>

function dot_suffixes :: "string \<Rightarrow> string list" where
  "dot_suffixes s =
     (case index_byte s (CHR ''.'') of
        None \<Rightarrow> []
      | Some i \<Rightarrow> if i = 0 then [] else drop i s # dot_suffixes (drop (Suc i) s))"
  by pat_completeness auto

termination
proof (relation "measure length")
  fix s i assume "index_byte s (CHR ''.'') = Some i" and "i \<noteq> 0"
  then show "(drop (Suc i) s, s) \<in> measure length" by (cases s) auto
qed simp

declare dot_suffixes.simps [simp del]

text \<open>A name without empty labels, such as \<^verbatim>\<open>www.example.com\<close>.\<close>

definition clean_name :: "string \<Rightarrow> bool" where
  "clean_name s \<longleftrightarrow> [] \<notin> set (split_on (CHR ''.'') s)"

section \<open>Lemmas on strings\<close>

lemma index_byte_None [simp]: "index_byte s c = None \<longleftrightarrow> c \<notin> set s"
  by (induction s) auto

lemma index_byte_SomeD:
  "index_byte s c = Some i \<Longrightarrow> i < length s \<and> s ! i = c \<and> c \<notin> set (take i s)"
  by (induction s arbitrary: i) (auto split: if_splits)

lemma index_byte_append:
  "c \<notin> set p \<Longrightarrow> index_byte (p @ c # q) c = Some (length p)"
  by (induction p) auto

lemma index_byte_Some_split:
  assumes "index_byte s c = Some i"
  shows "s = take i s @ c # drop (Suc i) s" and "c \<notin> set (take i s)" and "i < length s"
  using index_byte_SomeD [OF assms] by (auto simp: id_take_nth_drop)

lemma last_index_byte_None [simp]: "last_index_byte s c = None \<longleftrightarrow> c \<notin> set s"
  by (simp add: last_index_byte_def)

lemma last_index_byte_append:
  assumes "c \<notin> set q" shows "last_index_byte (p @ c # q) c = Some (length p)"
proof -
  have "index_byte (rev (p @ c # q)) c = Some (length q)"
    using index_byte_append [of c "rev q" "rev p"] assms by simp
  then show ?thesis by (simp add: last_index_byte_def)
qed

lemma char_code_range [simp]: "0 \<le> char_code c" "char_code c < 256"
  by (simp_all add: char_code_def of_char_def horner_sum_of_bool_2_less [of "[]", simplified])

lemma char_of_char_code [simp]: "char_of (char_code c) = c"
  by (simp add: char_code_def)

lemma char_code_char_of [simp]: "0 \<le> n \<Longrightarrow> n < 256 \<Longrightarrow> char_code (char_of n) = n"
  by (simp add: char_code_def)

lemma lower_char_idem [simp]: "lower_char (lower_char c) = lower_char c"
  by (simp add: lower_char_def)

lemma to_lower_idem [simp]: "to_lower (to_lower s) = to_lower s"
  by (simp add: to_lower_def comp_def)

lemma to_lower_append [simp]: "to_lower (a @ b) = to_lower a @ to_lower b"
  by (simp add: to_lower_def)

lemma to_lower_Nil [simp]: "to_lower s = [] \<longleftrightarrow> s = []" "to_lower [] = []"
  by (simp_all add: to_lower_def)

lemma lower_char_punct [simp]:
  "char_code d < 65 \<Longrightarrow> lower_char d = d"
  by (simp add: lower_char_def)

lemma split_on_nonempty [simp]: "split_on c s \<noteq> []"
  by (cases s) (auto split: list.splits)

lemma split_on_absent: "c \<notin> set s \<Longrightarrow> split_on c s = [s]"
  by (induction s) auto

lemma split_on_append:
  "c \<notin> set p \<Longrightarrow> split_on c (p @ c # q) = p # split_on c q"
  by (induction p) auto

lemma split_on_length: "length (split_on c s) = Suc (length (filter (\<lambda>x. x = c) s))"
  by (induction s) (auto split: list.splits)

lemma trim_space_Nil [simp]: "trim_space [] = []"
  by (simp add: trim_space_def)

lemma trim_space_id: "(\<forall>c \<in> set s. \<not> is_space c) \<Longrightarrow> trim_space s = s"
proof -
  assume a: "\<forall>c \<in> set s. \<not> is_space c"
  then have "dropWhile is_space s = s" by (cases s) auto
  moreover from a have "dropWhile is_space (rev s) = rev s" by (cases "rev s") (auto dest: arg_cong [where f = set])
  ultimately show ?thesis by (simp add: trim_space_def)
qed

lemma has_prefix_iff [gost_spec]: "has_prefix s p \<longleftrightarrow> prefix p s"
  by (metis append_eq_conv_conj append_take_drop_id has_prefix_def prefix_def)

lemma has_suffix_iff [gost_spec]: "has_suffix s p \<longleftrightarrow> suffix p s"
  by (metis append_take_drop_id has_suffix_def suffix_def suffix_length_le suffix_take
      append_eq_append_conv append_same_eq length_append)

section \<open>Lemmas on numbers in strings\<close>

lemma wrap64_id: "min_int64 \<le> n \<Longrightarrow> n \<le> max_int64 \<Longrightarrow> wrap64 n = n"
  by (simp add: wrap64_def min_int64_def max_int64_def)

lemma wrap64_range: "min_int64 \<le> wrap64 n" "wrap64 n \<le> max_int64"
  using pos_mod_bound [of "2 ^ 64" "n + 2 ^ 63"] pos_mod_sign [of "2 ^ 64" "n + 2 ^ 63"]
  by (auto simp: wrap64_def min_int64_def max_int64_def)

lemma decimal_snoc: "decimal (s @ [c]) = 10 * decimal s + digit_val c"
  by (simp add: decimal_def)

lemma nat_digits_digits: "0 \<le> n \<Longrightarrow> c \<in> set (nat_digits n) \<Longrightarrow> is_digit c"
proof (induction n rule: nat_digits.induct)
  case (1 n)
  have m: "0 \<le> n mod 10" "n mod 10 < 10" by simp_all
  show ?case
  proof (cases "n < 10")
    case True
    with 1 show ?thesis by (simp add: nat_digits.simps [of n] is_digit_def)
  next
    case False
    with 1 m show ?thesis by (auto simp: nat_digits.simps [of n] is_digit_def)
  qed
qed

lemma decimal_nat_digits [simp]: "0 \<le> n \<Longrightarrow> decimal (nat_digits n) = n"
proof (induction n rule: nat_digits.induct)
  case (1 n)
  have m: "0 \<le> n mod 10" "n mod 10 < 10" by simp_all
  show ?case
  proof (cases "n < 10")
    case True
    with 1 show ?thesis by (simp add: nat_digits.simps [of n] decimal_def digit_val_def)
  next
    case False
    with 1 m show ?thesis
      by (simp add: nat_digits.simps [of n] decimal_snoc digit_val_def)
  qed
qed

lemma nat_digits_nonempty [simp]: "nat_digits n \<noteq> []"
  by (simp add: nat_digits.simps [of n])

lemma not_digit_punct [simp]:
  "\<not> is_digit (CHR ''-'')" "\<not> is_digit (CHR ''+'')" "\<not> is_digit (CHR '':'')"
  "\<not> is_digit (CHR ''['')" "\<not> is_digit (CHR '']'')" "\<not> is_digit (CHR ''.'')"
  by code_simp+

lemma itoa_digits: "0 \<le> n \<Longrightarrow> c \<in> set (itoa n) \<Longrightarrow> is_digit c"
  by (auto simp: itoa_def dest: nat_digits_digits)

lemma itoa_absent: "0 \<le> n \<Longrightarrow> \<not> is_digit c \<Longrightarrow> c \<notin> set (itoa n)"
  using itoa_digits by blast

lemma itoa_nonempty [simp]: "itoa n \<noteq> []"
  by (simp add: itoa_def)

lemma atoi_itoa: 
  assumes "0 \<le> n" and "n \<le> max_int64" shows "atoi (itoa n) = (n, True)"
proof -
  have ds: "list_all is_digit (nat_digits n)"
    using nat_digits_digits [OF assms(1)] by (simp add: list_all_iff)
  then have hd: "is_digit (hd (nat_digits n))" by (cases "nat_digits n") auto
  then have ne: "hd (nat_digits n) \<noteq> CHR ''-''" "hd (nat_digits n) \<noteq> CHR ''+''"
    using not_digit_punct by metis+
  show ?thesis using assms ds ne
    by (simp add: atoi_def itoa_def min_int64_def max_int64_def)
qed

lemma atoi_range: "min_int64 \<le> fst (atoi s)" "fst (atoi s) \<le> max_int64"
  by (auto simp: atoi_def Let_def min_int64_def max_int64_def)

section \<open>Lemmas on host and port\<close>

lemma split_join_host_port:
  assumes "CHR ''['' \<notin> set h" "CHR '']'' \<notin> set h"
    and "CHR '':'' \<notin> set p" "CHR ''['' \<notin> set p" "CHR '']'' \<notin> set p"
  shows "split_host_port (join_host_port h p) = Some (h, p)"
proof (cases "CHR '':'' \<in> set h")
  case True
  let ?s = "(CHR ''['' # h @ [CHR '']'']) @ CHR '':'' # p"
  have "last_index_byte ?s (CHR '':'') = Some (length h + 2)"
    using last_index_byte_append [of "CHR '':''" p "CHR ''['' # h @ [CHR '']'']"] assms by simp
  moreover have "index_byte ?s (CHR '']'') = Some (Suc (length h))"
    using index_byte_append [of "CHR '']''" "CHR ''['' # h" "CHR '':'' # p"] assms by simp
  ultimately show ?thesis
    using True assms by (simp add: split_host_port_def join_host_port_def)
next
  case False
  have "last_index_byte (h @ CHR '':'' # p) (CHR '':'') = Some (length h)"
    using last_index_byte_append assms by blast
  moreover have "hd (h @ CHR '':'' # p) \<noteq> CHR ''[''"
    using assms by (cases h) auto
  ultimately show ?thesis
    using False assms by (simp add: split_host_port_def join_host_port_def)
qed

section \<open>Lemmas on the suffixes of a name\<close>

lemma dot_suffixes_no_dot [simp]: "CHR ''.'' \<notin> set s \<Longrightarrow> dot_suffixes s = []"
  by (subst dot_suffixes.simps) (simp add: index_byte_None [THEN iffD2])

lemma dot_suffixes_label:
  "CHR ''.'' \<notin> set p \<Longrightarrow> p \<noteq> [] \<Longrightarrow>
   dot_suffixes (p @ CHR ''.'' # q) = (CHR ''.'' # q) # dot_suffixes q"
  by (subst dot_suffixes.simps) (simp add: index_byte_append)

lemma dot_suffixes_leading_dot [simp]: "dot_suffixes (CHR ''.'' # q) = []"
  by (subst dot_suffixes.simps) simp

text \<open>For a name without empty labels the candidates are all suffixes that begin with a dot.\<close>

lemma clean_name_label:
  "CHR ''.'' \<notin> set p \<Longrightarrow> clean_name (p @ CHR ''.'' # q) \<longleftrightarrow> p \<noteq> [] \<and> clean_name q"
  by (auto simp: clean_name_def split_on_append)

lemma clean_name_no_dot: "CHR ''.'' \<notin> set p \<Longrightarrow> clean_name p \<longleftrightarrow> p \<noteq> []"
  by (auto simp: clean_name_def split_on_absent)

lemma dotted_suffix_append:
  assumes "CHR ''.'' \<notin> set p"
  shows "suffix (CHR ''.'' # t) (p @ CHR ''.'' # q) \<longleftrightarrow> t = q \<or> suffix (CHR ''.'' # t) q"
proof
  assume "suffix (CHR ''.'' # t) (p @ CHR ''.'' # q)"
  then obtain zs where zs: "p @ CHR ''.'' # q = zs @ CHR ''.'' # t" by (auto simp: suffix_def)
  then consider us where "zs = p @ us" "CHR ''.'' # q = us @ CHR ''.'' # t"
    | us where "p = zs @ us" "us @ CHR ''.'' # q = CHR ''.'' # t"
    by (auto simp: append_eq_append_conv2)
  then show "t = q \<or> suffix (CHR ''.'' # t) q"
  proof cases
    case 1
    then show ?thesis by (cases us) (auto simp: suffix_def)
  next
    case 2
    with assms show ?thesis by (cases us) auto
  qed
next
  assume "t = q \<or> suffix (CHR ''.'' # t) q"
  then show "suffix (CHR ''.'' # t) (p @ CHR ''.'' # q)"
    by (auto intro: suffix_order.trans suffix_ConsI simp: suffix_appendI suffix_ConsI)
qed

lemma dot_suffixes_clean:
  "clean_name s \<Longrightarrow> set (dot_suffixes s) = {CHR ''.'' # t | t. suffix (CHR ''.'' # t) s}"
proof (induction s rule: length_induct)
  case (1 s)
  show ?case
  proof (cases "CHR ''.'' \<in> set s")
    case False
    then have "\<not> suffix (CHR ''.'' # t) s" for t by (auto simp: suffix_def)
    with False show ?thesis by simp
  next
    case True
    then obtain p q where s: "s = p @ CHR ''.'' # q" "CHR ''.'' \<notin> set p"
      by (meson split_list_first)
    with 1 have "p \<noteq> []" "set (dot_suffixes q) = {CHR ''.'' # t | t. suffix (CHR ''.'' # t) q}"
      by (auto simp: clean_name_label)
    with s show ?thesis
      by (auto simp: dot_suffixes_label dotted_suffix_append)
  qed
qed

end
