(* ===== verification/Netip.thy ===== *)
theory Netip
  imports Gost_Prelude
begin

text \<open>
  IP addresses as the packages \<open>net\<close> and \<open>net/netip\<close> of Go's standard library have them: the
  value \<open>netip.Addr\<close>, its parser, \<open>net.ParseIP\<close>, \<open>net.ParseCIDR\<close> and \<open>net.IPNet.Contains\<close>.

  A \<open>net.IP\<close> is modelled by the 128-bit value of its 16-byte form: \<open>net.ParseIP\<close> returns that
  form, and the modelled packages use a \<open>net.IP\<close> only through operations (\<open>Equal\<close>, \<open>To4\<close>,
  \<open>Contains\<close>, \<open>netip.Addr.Unmap\<close>) that do not distinguish it from the 4-byte form.
\<close>

unbundle bit_operations_syntax

section \<open>Addresses\<close>

datatype addr = V4 "32 word" | V6 "128 word" string \<comment> \<open>the value and the zone\<close>

type_synonym ip = "128 word"

definition v4_mapped :: "ip \<Rightarrow> bool" where
  "v4_mapped w \<longleftrightarrow> drop_bit 32 w = 0xffff"

definition map_v4 :: "32 word \<Rightarrow> ip" where
  "map_v4 w = 0xffff00000000 + ucast w"

fun is4 :: "addr \<Rightarrow> bool" where
  "is4 (V4 w) = True"
| "is4 (V6 w z) = False"

fun is4in6 :: "addr \<Rightarrow> bool" where
  "is4in6 (V4 w) = False"
| "is4in6 (V6 w z) = v4_mapped w"

fun unmap :: "addr \<Rightarrow> addr" where
  "unmap (V4 w) = V4 w"
| "unmap (V6 w z) = (if v4_mapped w then V4 (ucast w) else V6 w z)"

fun bit_len :: "addr \<Rightarrow> nat" where
  "bit_len (V4 w) = 32"
| "bit_len (V6 w z) = 128"

fun zone :: "addr \<Rightarrow> string" where
  "zone (V4 w) = []"
| "zone (V6 w z) = z"

fun as_ip :: "addr \<Rightarrow> ip" where
  "as_ip (V4 w) = map_v4 w"
| "as_ip (V6 w z) = w"

text \<open>\<open>netip.Addr.As16\<close>: the 16 bytes, most significant first.\<close>

definition as16 :: "addr \<Rightarrow> 8 word list" where
  "as16 a = map (\<lambda>k. ucast (drop_bit (8 * (15 - k)) (as_ip a))) [0..<16]"

text \<open>\<open>netip.AddrFromSlice\<close> of a 16-byte slice.\<close>

definition addr_from_ip :: "ip \<Rightarrow> addr" where
  "addr_from_ip w = V6 w []"

text \<open>\<open>netip.Addr.Less\<close>: by length, then value, then zone.\<close>

fun str_less :: "string \<Rightarrow> string \<Rightarrow> bool" where
  "str_less [] [] = False"
| "str_less [] (y # ys) = True"
| "str_less (x # xs) [] = False"
| "str_less (x # xs) (y # ys) =
     (char_code x < char_code y \<or> (x = y \<and> str_less xs ys))"

fun addr_less :: "addr \<Rightarrow> addr \<Rightarrow> bool" where
  "addr_less (V4 a) (V4 b) = (a < b)"
| "addr_less (V4 a) (V6 b z) = True"
| "addr_less (V6 a z) (V4 b) = False"
| "addr_less (V6 a z) (V6 b y) = (a < b \<or> (a = b \<and> str_less z y))"

section \<open>The parser\<close>

definition is_hex :: "char \<Rightarrow> bool" where
  "is_hex c \<longleftrightarrow> is_digit c \<or> (97 \<le> char_code c \<and> char_code c \<le> 102) \<or> (65 \<le> char_code c \<and> char_code c \<le> 70)"

definition hex_val :: "char \<Rightarrow> int" where
  "hex_val c = (if is_digit c then char_code c - 48
                else if 97 \<le> char_code c then char_code c - 87 else char_code c - 55)"

text \<open>
  The four fields of a dotted address. The arguments are: whether the previous byte was a dot
  (or there is none), the value and the number of digits of the current field, the fields so far.
\<close>

fun ipv4_fields :: "bool \<Rightarrow> int \<Rightarrow> nat \<Rightarrow> int list \<Rightarrow> string \<Rightarrow> int list option" where
  "ipv4_fields prev_dot val len fs [] = (if length fs < 3 then None else Some (fs @ [val]))"
| "ipv4_fields prev_dot val len fs (c # cs) =
     (if is_digit c then
        (if len = 1 \<and> val = 0 then None
         else let v = val * 10 + digit_val c in
           if v > 255 then None else ipv4_fields False v (Suc len) fs cs)
      else if c = CHR ''.'' then
        (if prev_dot \<or> cs = [] then None
         else if length fs = 3 then None
         else ipv4_fields True 0 0 (fs @ [val]) cs)
      else None)"

definition horner :: "int \<Rightarrow> int list \<Rightarrow> int" where
  "horner b ds = foldl (\<lambda>n d. b * n + d) 0 ds"

definition parse_ipv4 :: "string \<Rightarrow> addr option" where
  "parse_ipv4 s = map_option (\<lambda>fs. V4 (of_int (horner 256 fs))) (ipv4_fields True 0 0 [] s)"

text \<open>
  The loop over the groups of an IPv6 address: the bytes so far, the position of the ellipsis, the
  rest of the input; it gives the same three. It runs while fewer than 16 bytes are filled.
\<close>

function ipv6_groups ::
  "int list \<Rightarrow> nat option \<Rightarrow> string \<Rightarrow> (int list \<times> nat option \<times> string) option" where
  "ipv6_groups bs el s =
     (if 16 \<le> length bs then Some (bs, el, s)
      else let ds = takeWhile is_hex s; rest = dropWhile is_hex s in
        if 4 < length ds \<or> ds = [] then None
        else if rest \<noteq> [] \<and> hd rest = CHR ''.'' then
          (if el = None \<and> length bs \<noteq> 12 then None
           else if 16 < length bs + 4 then None
           else case ipv4_fields True 0 0 [] s of
                  None \<Rightarrow> None
                | Some fs \<Rightarrow> Some (bs @ fs, el, []))
        else
          (let acc = horner 16 (map hex_val ds); bs' = bs @ [acc div 256, acc mod 256] in
           if rest = [] then Some (bs', el, [])
           else if hd rest \<noteq> CHR '':'' then None
           else if tl rest = [] then None
           else let s' = tl rest in
             if hd s' = CHR '':'' then
               (if el \<noteq> None then None
                else if tl s' = [] then Some (bs', Some (length bs'), [])
                else ipv6_groups bs' (Some (length bs')) (tl s'))
             else ipv6_groups bs' el s'))"
  by pat_completeness auto
termination
  by (relation "measure (\<lambda>(bs, el, s). 16 - length bs)") (auto simp: Let_def)

declare ipv6_groups.simps [simp del]

definition parse_ipv6 :: "string \<Rightarrow> addr option" where
  "parse_ipv6 inp =
     (let pct = index_byte inp (CHR ''%'');
          s = (case pct of None \<Rightarrow> inp | Some i \<Rightarrow> take i inp);
          z = (case pct of None \<Rightarrow> [] | Some i \<Rightarrow> drop (Suc i) inp) in
      if pct \<noteq> None \<and> z = [] then None
      else let lead = (take 2 s = ''::'');
               s1 = (if lead then drop 2 s else s) in
        if lead \<and> s1 = [] then Some (V6 0 z)
        else case ipv6_groups [] (if lead then Some 0 else None) s1 of
               None \<Rightarrow> None
             | Some (bs, el, rest) \<Rightarrow>
                 if rest \<noteq> [] then None
                 else if length bs < 16 then
                   (case el of
                      None \<Rightarrow> None
                    | Some e \<Rightarrow>
                        Some (V6 (of_int (horner 256
                          (take e bs @ replicate (16 - length bs) 0 @ drop e bs))) z))
                 else if el \<noteq> None then None
                 else Some (V6 (of_int (horner 256 bs)) z))"

text \<open>\<open>netip.ParseAddr\<close>: the first of \<^verbatim>\<open>.\<close>, \<^verbatim>\<open>:\<close> and \<^verbatim>\<open>%\<close> decides the kind.\<close>

definition parse_addr :: "string \<Rightarrow> addr option" where
  "parse_addr s =
     (case find (\<lambda>c. c = CHR ''.'' \<or> c = CHR '':'' \<or> c = CHR ''%'') s of
        None \<Rightarrow> None
      | Some c \<Rightarrow> if c = CHR ''.'' then parse_ipv4 s
                  else if c = CHR '':'' then parse_ipv6 s else None)"

text \<open>\<open>net.ParseIP\<close>.\<close>

definition parse_ip :: "string \<Rightarrow> ip option" where
  "parse_ip s = (case parse_addr s of
                   None \<Rightarrow> None
                 | Some a \<Rightarrow> if zone a = [] then Some (as_ip a) else None)"

section \<open>Printing\<close>

text \<open>\<open>net.IP.String\<close>: dotted for a mapped address, otherwise the groups in hexadecimal with the
  first longest run of at least two zero groups written as two colons.\<close>

definition hex_char :: "int \<Rightarrow> char" where
  "hex_char n = (if n < 10 then char_of (48 + n) else char_of (87 + n))"

definition hex_group :: "int \<Rightarrow> string" where
  "hex_group n =
     (let ds = dropWhile (\<lambda>d. d = 0) [n div 4096, n div 256 mod 16, n div 16 mod 16, n mod 16]
      in if ds = [] then ''0'' else map hex_char ds)"

definition ip_groups :: "ip \<Rightarrow> int list" where
  "ip_groups w = map (\<lambda>k. uint w div 2 ^ (16 * (7 - k)) mod 65536) [0..<8]"

fun zero_run :: "int list \<Rightarrow> nat" where
  "zero_run [] = 0"
| "zero_run (g # gs) = (if g = 0 then Suc (zero_run gs) else 0)"

text \<open>The start and the length of the run, from position \<open>i\<close> on, given the best one so far.\<close>

fun best_run :: "nat \<times> nat \<Rightarrow> nat \<Rightarrow> int list \<Rightarrow> nat \<times> nat" where
  "best_run b i [] = b"
| "best_run b i (g # gs) =
     best_run (if snd b < zero_run (g # gs) then (i, zero_run (g # gs)) else b) (Suc i) gs"

fun join_groups :: "string list \<Rightarrow> string" where
  "join_groups [] = []"
| "join_groups [g] = g"
| "join_groups (g # gs) = g @ [CHR '':''] @ join_groups gs"

definition ip_string :: "ip \<Rightarrow> string" where
  "ip_string w =
     (if v4_mapped w then
        (let v = uint w mod 2 ^ 32 in
         itoa (v div 2 ^ 24) @ ''.'' @ itoa (v div 2 ^ 16 mod 256) @ ''.'' @
         itoa (v div 256 mod 256) @ ''.'' @ itoa (v mod 256))
      else
        let gs = map hex_group (ip_groups w); (i, n) = best_run (0, 1) 0 (ip_groups w) in
        if n < 2 then join_groups gs
        else join_groups (take i gs) @ ''::'' @ join_groups (drop (i + n) gs))"

section \<open>Networks\<close>

text \<open>A \<open>net.IPNet\<close> that \<open>net.ParseCIDR\<close> returns: the masked address and the mask's length.\<close>

datatype ipnet = Net4 "32 word" nat | Net6 "128 word" nat

text \<open>The decimal number at the start of a string, with the library's bound \<open>0xFFFFFF\<close>.\<close>

definition dtoi_all :: "string \<Rightarrow> int option" where
  "dtoi_all s = (if s = [] \<or> \<not> list_all is_digit s \<or> 0xFFFFFF \<le> decimal s then None else Some (decimal s))"

definition parse_cidr :: "string \<Rightarrow> ipnet option" where
  "parse_cidr s =
     (case index_byte s (CHR ''/'') of
        None \<Rightarrow> None
      | Some i \<Rightarrow>
          (case parse_addr (take i s) of
             None \<Rightarrow> None
           | Some a \<Rightarrow>
               if zone a \<noteq> [] then None
               else case dtoi_all (drop (Suc i) s) of
                      None \<Rightarrow> None
                    | Some n \<Rightarrow>
                        if int (bit_len a) < n then None
                        else Some (case a of
                                     V4 w \<Rightarrow> Net4 (w AND NOT (mask (32 - nat n))) (nat n)
                                   | V6 w z \<Rightarrow> Net6 (w AND NOT (mask (128 - nat n))) (nat n))))"

text \<open>
  \<open>net.IPNet.Contains\<close>: an IPv4 address (mapped or not) is compared only with an IPv4 network,
  and a network with a mapped address counts as one, with the last four bytes of its mask.
\<close>

fun ipnet_contains :: "ipnet \<Rightarrow> ip \<Rightarrow> bool" where
  "ipnet_contains (Net4 a n) w =
     (v4_mapped w \<and> drop_bit (32 - n) (ucast w :: 32 word) = drop_bit (32 - n) a)"
| "ipnet_contains (Net6 a n) w =
     (if v4_mapped a
      then v4_mapped w \<and> drop_bit (32 - (n - 96)) (ucast w :: 32 word) = drop_bit (32 - (n - 96)) (ucast a :: 32 word)
      else \<not> v4_mapped w \<and> drop_bit (128 - n) w = drop_bit (128 - n) a)"

section \<open>Lemmas\<close>

lemma as16_length [simp]: "length (as16 a) = 16"
  by (simp add: as16_def)

lemma as16_bit:
  assumes "k < 16" and "j < 8"
  shows "bit (as16 a ! k) j = bit (as_ip a) (8 * (15 - k) + j)"
  using assms by (simp add: as16_def bit_simps)

lemma unat_less_32: "unat (w :: 32 word) < 4294967296"
  using unsigned_less [of w, where ?'a = nat] by simp

lemma unat_map_v4: "unat (map_v4 w) = 0xffff00000000 + unat w"
proof -
  have "unat (ucast w :: 128 word) = unat w"
    by (simp add: unsigned_ucast_eq take_bit_nat_eq_self unat_less_32 [THEN less_le_trans])
  with unat_less_32 [of w] show ?thesis
    by (simp add: map_v4_def unat_word_ariths)
qed

lemma v4_mapped_map_v4 [simp]: "v4_mapped (map_v4 w)"
proof -
  have "(unat w + 65535 * 4294967296) div 4294967296 = 65535"
    using unat_less_32 [of w] by (subst div_mult_self1) simp_all
  then have "unat (drop_bit 32 (map_v4 w)) = 0xffff"
    by (subst unat_drop_bit_eq) (simp add: drop_bit_eq_div unat_map_v4 add.commute)
  then show ?thesis by (simp add: v4_mapped_def word_unat_eq_iff)
qed

lemma ucast_map_v4 [simp]: "ucast (map_v4 w) = w"
proof -
  have eq: "unat (map_v4 w) = unat w + 65535 * 4294967296"
    by (subst unat_map_v4) simp
  have "unat (ucast (map_v4 w) :: 32 word) = unat (map_v4 w) mod 4294967296"
    by (simp add: unsigned_ucast_eq take_bit_eq_mod del: unsigned_take_bit_eq)
  also have "\<dots> = unat w"
    unfolding eq using unat_less_32 [of w] by (subst mod_mult_self1) (rule mod_less)
  finally show ?thesis by (simp add: word_unat_eq_iff)
qed

end
