(* ===== verification/Net_Addr.thy ===== *)
theory Net_Addr
  imports Netip
begin

text \<open>
  The package \<open>x/internal/net\<close>, file \<open>addr.go\<close>: port ranges, IP ranges, addresses with a port
  range, and the resolution of an interface name or address.

  A parse method fills its receiver and returns an error; the models return the filled value, and
  \<^term>\<open>None\<close> for the error, on which the receiver keeps its old value. The operating system's list
  of interfaces is an argument of the functions that ask for it.
\<close>

section \<open>Port ranges\<close>

record PortRange =
  pr_Min :: int
  pr_Max :: int

definition PortRange_Parse :: "string \<Rightarrow> PortRange option" where
  "PortRange_Parse s =
     (case split_on (CHR ''-'') s of
        [x] \<Rightarrow>
          (let (port, ok) = atoi s in
           if \<not> ok then None
           else if port < 0 \<or> port > 65535 then None
           else Some \<lparr> pr_Min = port, pr_Max = port \<rparr>)
      | [x, y] \<Rightarrow>
          (let (mn, ok1) = atoi x in
           if \<not> ok1 then None
           else let (mx, ok2) = atoi y in
             if \<not> ok2 then None
             else Some \<lparr> pr_Min = mn, pr_Max = mx \<rparr>)
      | _ \<Rightarrow> None)"

definition PortRange_Contains :: "PortRange \<Rightarrow> int \<Rightarrow> bool" where
  "PortRange_Contains pr port \<longleftrightarrow> port \<ge> pr_Min pr \<and> port \<le> pr_Max pr"

section \<open>Addresses with a port range\<close>

text \<open>The loop of \<open>Addrs\<close>, with the counter of type \<open>int\<close>; it does not return when the bound is
  the largest \<open>int\<close>.\<close>

partial_function (option) addrs_loop ::
  "string \<Rightarrow> int \<Rightarrow> int \<Rightarrow> string list \<Rightarrow> string list option" where
  "addrs_loop h i mx addrs =
     (if i \<le> mx then addrs_loop h (wrap64 (i + 1)) mx (addrs @ [join_host_port h (itoa i)])
      else Some addrs)"

definition AddrPortRange_Addrs :: "string \<Rightarrow> string list option" where
  "AddrPortRange_Addrs p =
     (if contains_str p ''://'' then Some []
      else case split_host_port p of
             None \<Rightarrow> Some []
           | Some (h, sp) \<Rightarrow>
               let pr = (case PortRange_Parse sp of
                           None \<Rightarrow> \<lparr> pr_Min = 0, pr_Max = 0 \<rparr> | Some pr \<Rightarrow> pr)
               in addrs_loop h (pr_Min pr) (pr_Max pr) [])"

section \<open>IP ranges\<close>

record IPRange =
  ir_Min :: addr
  ir_Max :: addr

definition IPRange_Parse :: "string \<Rightarrow> IPRange option" where
  "IPRange_Parse s =
     (case split_on (CHR ''-'') s of
        [x] \<Rightarrow> (case parse_addr (trim_space s) of
                  None \<Rightarrow> None
                | Some a \<Rightarrow> Some \<lparr> ir_Min = a, ir_Max = a \<rparr>)
      | [x, y] \<Rightarrow> (case parse_addr (trim_space x) of
                  None \<Rightarrow> None
                | Some mn \<Rightarrow>
                    (case parse_addr (trim_space y) of
                       None \<Rightarrow> None
                     | Some mx \<Rightarrow> Some \<lparr> ir_Min = mn, ir_Max = mx \<rparr>))
      | _ \<Rightarrow> None)"

definition IPRange_Contains :: "IPRange \<Rightarrow> addr \<Rightarrow> bool" where
  "IPRange_Contains r a \<longleftrightarrow> \<not> (addr_less a (ir_Min r) \<or> addr_less (ir_Max r) a)"

section \<open>Interfaces\<close>

text \<open>An address of an interface is an IP network (here its address) or of another type.\<close>

datatype if_addr = IfIPNet ip | IfOther

datatype net_addr = TCPAddr ip int | UDPAddr ip int | IPAddr ip

datatype if_error = LookupFailed | AddrsFailed | AddrNotFound

definition ipToAddr :: "ip \<Rightarrow> string \<Rightarrow> net_addr" where
  "ipToAddr i network =
     (if network \<in> {''tcp'', ''tcp4'', ''tcp6''} then TCPAddr i 0
      else if network \<in> {''udp'', ''udp4'', ''udp6''} then UDPAddr i 0
      else IPAddr i)"

text \<open>An interface is its name and its addresses; \<^term>\<open>None\<close> means that the query for the
  addresses failed, which \<open>findInterfaceByIP\<close> treats as no address.\<close>

type_synonym interface = "string \<times> if_addr list option"

fun findInterfaceByIP_loop :: "ip \<Rightarrow> interface list \<Rightarrow> string" where
  "findInterfaceByIP_loop i [] = []"
| "findInterfaceByIP_loop i ((name, addrs) # rest) =
     (if IfIPNet i \<in> set (case addrs of None \<Rightarrow> [] | Some l \<Rightarrow> l) then name
      else findInterfaceByIP_loop i rest)"

definition findInterfaceByIP :: "interface list option \<Rightarrow> ip \<Rightarrow> if_error + string" where
  "findInterfaceByIP ifces i =
     (case ifces of None \<Rightarrow> Inl LookupFailed | Some l \<Rightarrow> Inr (findInterfaceByIP_loop i l))"

text \<open>The results: interface name, addresses (\<^term>\<open>None\<close> is the nil address), \<open>isIP\<close>, error.\<close>

type_synonym if_result = "string \<times> net_addr option list \<times> bool \<times> if_error option"

definition ParseInterfaceAddr ::
  "interface list option \<Rightarrow> string \<Rightarrow> string \<Rightarrow> if_result" where
  "ParseInterfaceAddr ifces ifceName network =
     (if ifceName = [] then ([], [None], False, None)
      else case parse_ip ifceName of
        None \<Rightarrow>
          (case Option.bind ifces (\<lambda>l. map_of l ifceName) of
             None \<Rightarrow> ([], [], False, Some LookupFailed)
           | Some None \<Rightarrow> ([], [], False, Some AddrsFailed)
           | Some (Some addrs) \<Rightarrow>
               if addrs = [] then ([], [], False, Some AddrNotFound)
               else (ifceName,
                     [Some (ipToAddr i network). IfIPNet i \<leftarrow> addrs],
                     False, None))
      | Some i \<Rightarrow>
          (case findInterfaceByIP ifces i of
             Inl e \<Rightarrow> ([], [], True, Some e)
           | Inr ifce \<Rightarrow> (ifce, [Some (ipToAddr i network)], True, None)))"

section \<open>Port ranges: lemmas\<close>

lemma PortRange_Parse_single:
  "0 \<le> n \<Longrightarrow> n \<le> 65535 \<Longrightarrow> PortRange_Parse (itoa n) = Some \<lparr> pr_Min = n, pr_Max = n \<rparr>"
  using atoi_itoa [of n]
  by (simp add: PortRange_Parse_def split_on_absent itoa_absent max_int64_def)

lemma PortRange_Parse_pair:
  assumes "0 \<le> a" "a \<le> max_int64" "0 \<le> b" "b \<le> max_int64"
  shows "PortRange_Parse (itoa a @ ''-'' @ itoa b) = Some \<lparr> pr_Min = a, pr_Max = b \<rparr>"
proof -
  have "split_on (CHR ''-'') (itoa a @ ''-'' @ itoa b) = [itoa a, itoa b]"
    using split_on_append [of "CHR ''-''" "itoa a" "itoa b"] assms
    by (simp add: itoa_absent split_on_absent)
  then show ?thesis using assms by (simp add: PortRange_Parse_def atoi_itoa)
qed

lemma PortRange_Parse_atoi:
  assumes "PortRange_Parse s = Some pr"
  shows "\<exists>x y. pr_Min pr = fst (atoi x) \<and> pr_Max pr = fst (atoi y)"
proof -
  consider (one) x where "split_on (CHR ''-'') s = [x]"
    | (two) x y where "split_on (CHR ''-'') s = [x, y]"
    using assms by (auto simp: PortRange_Parse_def split: list.splits)
  then show ?thesis
  proof cases
    case one
    with assms have "pr_Min pr = fst (atoi s)" "pr_Max pr = fst (atoi s)"
      by (auto simp: PortRange_Parse_def Let_def split: prod.splits if_splits)
    then show ?thesis by blast
  next
    case two
    with assms have "pr_Min pr = fst (atoi x)" "pr_Max pr = fst (atoi y)"
      by (auto simp: PortRange_Parse_def Let_def split: prod.splits if_splits)
    then show ?thesis by blast
  qed
qed

lemma PortRange_Parse_range:
  assumes "PortRange_Parse s = Some pr"
  shows "min_int64 \<le> pr_Min pr" "pr_Min pr \<le> max_int64" "pr_Max pr \<le> max_int64"
  using PortRange_Parse_atoi [OF assms] atoi_range by metis+

lemma PortRange_Parse_Nil [simp]: "PortRange_Parse [] = None"
  by code_simp

section \<open>The expansion of a port range: lemmas\<close>

lemma addrs_loop_returns:
  assumes "mx < max_int64" and "min_int64 \<le> i"
  shows "addrs_loop h i mx acc = Some (acc @ map (\<lambda>j. join_host_port h (itoa j)) [i..mx])"
  using assms
proof (induction "nat (mx + 1 - i)" arbitrary: i acc)
  case 0
  then show ?case by (subst addrs_loop.simps) simp
next
  case (Suc n)
  then have le: "i \<le> mx" by simp
  have w: "wrap64 (i + 1) = i + 1"
    using Suc.prems le by (intro wrap64_id) auto
  have "addrs_loop h (i + 1) mx (acc @ [join_host_port h (itoa i)])
        = Some ((acc @ [join_host_port h (itoa i)]) @ map (\<lambda>j. join_host_port h (itoa j)) [i + 1..mx])"
    using Suc by (intro Suc.hyps(1)) auto
  then show ?case
    using le by (subst addrs_loop.simps) (simp add: w upto_rec1)
qed

text \<open>A counter of type \<open>int\<close> never exceeds the largest \<open>int\<close>: a loop that returns has a smaller bound.\<close>

lemma addrs_loop_bound:
  assumes "addrs_loop h i mx acc = Some l" and "min_int64 \<le> i" "i \<le> max_int64"
  shows "mx < max_int64"
proof -
  have "i \<le> max_int64 \<longrightarrow> mx < i \<or> mx < max_int64"
  proof (rule addrs_loop.raw_induct
      [where P = "\<lambda>_ i mx _ _. i \<le> max_int64 \<longrightarrow> mx < i \<or> mx < max_int64", OF _ assms(1)])
    fix f h i mx acc l
    assume IH: "\<And>h i mx acc l. f h i mx acc = Some l
                 \<Longrightarrow> i \<le> max_int64 \<longrightarrow> mx < i \<or> mx < max_int64"
      and eq: "(if i \<le> mx then f h (wrap64 (i + 1)) mx (acc @ [join_host_port h (itoa i)])
                else Some acc) = Some l"
    show "i \<le> max_int64 \<longrightarrow> mx < i \<or> mx < max_int64"
    proof (cases "i \<le> mx")
      case True
      with eq IH have "mx < wrap64 (i + 1) \<or> mx < max_int64" by (metis wrap64_range(2))
      with wrap64_range(2) [of "i + 1"] show ?thesis by linarith
    qed simp
  qed
  with assms(2,3) show ?thesis
    by linarith
qed

text \<open>
  The termination property (C34): the expansion of an address with a port range returns, with one address for
  every port of the range in ascending order, unless the upper bound of the range is the largest
  \<open>int\<close>; in that case, which the parser of port ranges admits, the loop does not end.
\<close>

theorem addr_expansion_terminates:
  assumes "\<not> contains_str p ''://''" and "split_host_port p = Some (h, sp)"
    and "PortRange_Parse sp = Some pr"
  shows "AddrPortRange_Addrs p
         = (if pr_Max pr = max_int64 then None
            else Some (map (\<lambda>j. join_host_port h (itoa j)) [pr_Min pr..pr_Max pr]))"
proof (cases "pr_Max pr = max_int64")
  case True
  with addrs_loop_bound [of h "pr_Min pr" max_int64 "[]"] PortRange_Parse_range(1,2) [OF assms(3)]
  have "addrs_loop h (pr_Min pr) (pr_Max pr) [] = None"
    by (cases "addrs_loop h (pr_Min pr) (pr_Max pr) []") auto
  with assms True show ?thesis by (simp add: AddrPortRange_Addrs_def)
next
  case False
  with assms PortRange_Parse_range [OF assms(3)] show ?thesis
    by (simp add: AddrPortRange_Addrs_def addrs_loop_returns)
qed

theorem addr_expansion_terminates_witness:
  "AddrPortRange_Addrs ''h:8-9'' = Some [''h:8'', ''h:9''] \<and>
   AddrPortRange_Addrs ''h:1-9223372036854775807'' = None"
proof -
  have "\<not> contains_str ''h:8-9'' ''://'' \<and> split_host_port ''h:8-9'' = Some (''h'', ''8-9'') \<and>
        PortRange_Parse ''8-9'' = Some \<lparr> pr_Min = 8, pr_Max = 9 \<rparr> \<and>
        map (\<lambda>j. join_host_port ''h'' (itoa j)) [8..9] = [''h:8'', ''h:9'']"
    by code_simp
  moreover have "\<not> contains_str ''h:1-9223372036854775807'' ''://'' \<and>
        split_host_port ''h:1-9223372036854775807'' = Some (''h'', ''1-9223372036854775807'') \<and>
        PortRange_Parse ''1-9223372036854775807''
          = Some \<lparr> pr_Min = 1, pr_Max = 9223372036854775807 \<rparr>"
    by code_simp
  moreover have "max_int64 = 9223372036854775807" by (simp add: max_int64_def)
  ultimately show ?thesis
    using addr_expansion_terminates [of "''h:8-9''" "''h''" "''8-9''" "\<lparr> pr_Min = 8, pr_Max = 9 \<rparr>"]
      addr_expansion_terminates [of "''h:1-9223372036854775807''" "''h''" "''1-9223372036854775807''"
        "\<lparr> pr_Min = 1, pr_Max = 9223372036854775807 \<rparr>"]
    by (simp del: One_nat_def)
qed

section \<open>The order of addresses: lemmas\<close>

lemma str_less_irrefl [simp]: "\<not> str_less s s"
  by (induction s) auto

lemma char_code_eq_iff: "char_code a = char_code b \<longleftrightarrow> a = b"
  by (metis char_of_char_code)

lemma str_less_linear: "str_less a b \<or> a = b \<or> str_less b a"
  by (induction a b rule: str_less.induct) (auto simp: char_code_eq_iff not_less order_le_less)

lemma str_less_trans: "str_less a b \<Longrightarrow> str_less b c \<Longrightarrow> str_less a c"
proof (induction a arbitrary: b c)
  case Nil
  then show ?case by (cases b; cases c) auto
next
  case (Cons x xs)
  then show ?case by (cases b; cases c) auto
qed

lemma addr_less_irrefl [simp]: "\<not> addr_less a a"
  by (cases a) auto

lemma addr_less_linear: "addr_less a b \<or> a = b \<or> addr_less b a"
  by (cases a; cases b) (simp_all add: less_linear, metis less_linear str_less_linear)

lemma addr_less_trans: "addr_less a b \<Longrightarrow> addr_less b c \<Longrightarrow> addr_less a c"
  by (cases a; cases b; cases c) (auto dest: str_less_trans)

lemma IPRange_Contains_V4 [simp]:
  "IPRange_Contains \<lparr> ir_Min = V4 lo, ir_Max = V4 hi \<rparr> (V4 w) \<longleftrightarrow> lo \<le> w \<and> w \<le> hi"
  by (auto simp: IPRange_Contains_def)

lemma IPRange_Contains_families [simp]:
  "\<not> IPRange_Contains \<lparr> ir_Min = V4 lo, ir_Max = V4 hi \<rparr> (V6 w z)"
  "\<not> IPRange_Contains \<lparr> ir_Min = V6 lo' z', ir_Max = V6 hi' y' \<rparr> (V4 v)"
  by (simp_all add: IPRange_Contains_def)

lemma IPRange_Contains_single:
  "IPRange_Contains \<lparr> ir_Min = a, ir_Max = a \<rparr> b \<longleftrightarrow> b = a"
  using addr_less_linear [of a b] by (auto simp: IPRange_Contains_def)

section \<open>Interfaces: lemmas\<close>

lemma findInterfaceByIP_loop_spec:
  assumes "findInterfaceByIP_loop i l = name" and "name \<noteq> []"
  shows "\<exists>addrs. (name, Some addrs) \<in> set l \<and> IfIPNet i \<in> set addrs"
  using assms
  by (induction l) (auto split: if_splits option.splits)

end
