(* ===== verification/Cidr_Trie.thy ===== *)
theory Cidr_Trie
  imports Netip
begin

text \<open>
  The binary trie of \<open>x/internal/matcher/cidr_trie.go\<close>: insertion of a network prefix and the
  lookup whether an inserted prefix covers an address.

  The specification of the trie is the locale \<open>prefix_set\<close>: a set of prefixes with the relation
  \<open>covers\<close>. The trie refines it; \<open>covers\<close> is then shown to be the comparison of the leading bits of
  the two addresses in their 32-bit or 128-bit value.
\<close>

section \<open>The data\<close>

text \<open>A \<open>netip.Prefix\<close>: its address and number of bits.\<close>

datatype prefix = Prefix (prefix_addr: addr) (prefix_bits: nat)

text \<open>A node: its flag and its two children, a nil pointer being \<^term>\<open>None\<close>.\<close>

datatype cidrNode =
  cidrNode (hasEntry: bool) (child0: "cidrNode option") (child1: "cidrNode option")

record cidrTrie =
  root4 :: "cidrNode option"
  root6 :: "cidrNode option"

definition newCIDRTrie :: cidrTrie where
  "newCIDRTrie = \<lparr> root4 = None, root6 = None \<rparr>"

section \<open>The operations\<close>

definition family4 :: "addr \<Rightarrow> bool" where
  "family4 a \<longleftrightarrow> is4 a \<or> is4in6 a"

definition bitAt :: "8 word list \<Rightarrow> nat \<Rightarrow> bool \<Rightarrow> 8 word" where
  "bitAt b i v4 =
     (let offset = (if v4 then 12 else 0);
          byteIdx = offset + i div 8;
          bitIdx = 7 - i mod 8
      in drop_bit bitIdx (b ! byteIdx) AND 1)"

definition trie_root :: "cidrTrie \<Rightarrow> addr \<Rightarrow> cidrNode option" where
  "trie_root t a = (if family4 a then root4 t else root6 t)"

definition setRoot :: "cidrTrie \<Rightarrow> addr \<Rightarrow> cidrNode \<Rightarrow> cidrTrie" where
  "setRoot t a n = (if family4 a then t\<lparr> root4 := Some n \<rparr> else t\<lparr> root6 := Some n \<rparr>)"

text \<open>\<open>rootOrCreate\<close> returns the root; that it also stores a new one is seen in \<open>trie_insert\<close>, which
  writes the changed root back.\<close>

definition rootOrCreate :: "cidrTrie \<Rightarrow> addr \<Rightarrow> cidrNode" where
  "rootOrCreate t a = (case trie_root t a of None \<Rightarrow> cidrNode False None None | Some n \<Rightarrow> n)"

fun get_child :: "cidrNode \<Rightarrow> 8 word \<Rightarrow> cidrNode option" where
  "get_child (cidrNode e l r) b = (if b = 0 then l else r)"

fun set_child :: "cidrNode \<Rightarrow> 8 word \<Rightarrow> cidrNode \<Rightarrow> cidrNode" where
  "set_child (cidrNode e l r) b n = (if b = 0 then cidrNode e (Some n) r else cidrNode e l (Some n))"

fun set_entry :: "cidrNode \<Rightarrow> cidrNode" where
  "set_entry (cidrNode e l r) = cidrNode True l r"

text \<open>The loop of \<open>insert\<close> from position \<open>i\<close> on, with \<open>k\<close> bits left.\<close>

fun insert_loop :: "8 word list \<Rightarrow> bool \<Rightarrow> nat \<Rightarrow> nat \<Rightarrow> cidrNode \<Rightarrow> cidrNode" where
  "insert_loop b v4 i 0 node = set_entry node"
| "insert_loop b v4 i (Suc k) node =
     (let bt = bitAt b i v4;
          child = (case get_child node bt of None \<Rightarrow> cidrNode False None None | Some c \<Rightarrow> c)
      in set_child node bt (insert_loop b v4 (Suc i) k child))"

definition trie_insert :: "prefix \<Rightarrow> cidrTrie \<Rightarrow> cidrTrie" where
  "trie_insert p t =
     (let a = prefix_addr p; bits = prefix_bits p in
      if bits = 0 then
        (case trie_root t a of
           None \<Rightarrow> setRoot t a (cidrNode True None None)
         | Some n \<Rightarrow> setRoot t a (set_entry n))
      else
        let root = rootOrCreate t a;
            b = as16 a;
            maxBits = (if family4 a then 32 else 128);
            bits = (if bits > maxBits then maxBits else bits)
        in setRoot t a (insert_loop b (family4 a) 0 bits root))"

text \<open>The loop of \<open>contains\<close> from position \<open>i\<close> on, with \<open>k\<close> rounds left.\<close>

fun contains_loop :: "8 word list \<Rightarrow> bool \<Rightarrow> nat \<Rightarrow> nat \<Rightarrow> cidrNode \<Rightarrow> bool" where
  "contains_loop b v4 i 0 node = False"
| "contains_loop b v4 i (Suc k) node =
     (case get_child node (bitAt b i v4) of
        None \<Rightarrow> False
      | Some child \<Rightarrow> if hasEntry child then True else contains_loop b v4 (Suc i) k child)"

definition trie_contains :: "cidrTrie \<Rightarrow> addr \<Rightarrow> bool" where
  "trie_contains t a =
     (case trie_root t a of
        None \<Rightarrow> False
      | Some root \<Rightarrow>
          if hasEntry root then True
          else contains_loop (as16 a) (family4 a) 0 (if family4 a then 32 else 128) root)"

text \<open>The length of an IPv4 mask is that of its 4 bytes, so \<open>ones\<close> is the length given.\<close>

fun ipNetToPrefix :: "ipnet \<Rightarrow> prefix" where
  "ipNetToPrefix (Net4 w n) = Prefix (V4 w) (if n > 32 then 32 else n)"
| "ipNetToPrefix (Net6 w n) =
     (let a = unmap (addr_from_ip w); bits = bit_len a
      in Prefix a (if n > bits then bits else n))"

section \<open>The interface of a set of prefixes\<close>

locale prefix_set =
  fixes empty :: 's
    and insert1 :: "'p \<Rightarrow> 's \<Rightarrow> 's"
    and contains :: "'s \<Rightarrow> 'a \<Rightarrow> bool"
    and covers :: "'p \<Rightarrow> 'a \<Rightarrow> bool"
  assumes contains_empty: "\<not> contains empty a"
    and contains_insert: "contains (insert1 p s) a \<longleftrightarrow> covers p a \<or> contains s a"
begin

definition build :: "'p list \<Rightarrow> 's" where
  "build ps = fold insert1 ps empty"

lemma contains_fold:
  "contains (fold insert1 ps s) a \<longleftrightarrow> (\<exists>p \<in> set ps. covers p a) \<or> contains s a"
  by (induction ps arbitrary: s) (auto simp: contains_insert)

lemma contains_build: "contains (build ps) a \<longleftrightarrow> (\<exists>p \<in> set ps. covers p a)"
  by (simp add: build_def contains_fold contains_empty)

lemma build_set_eq: "set ps = set qs \<Longrightarrow> contains (build ps) = contains (build qs)"
  by (auto simp: contains_build)

end

section \<open>The trie refines it\<close>

text \<open>The bits of an address in the order in which the trie consumes them.\<close>

definition trie_bits :: "addr \<Rightarrow> nat" where
  "trie_bits a = (if family4 a then 32 else 128)"

definition trie_bit :: "addr \<Rightarrow> nat \<Rightarrow> 8 word" where
  "trie_bit a i = bitAt (as16 a) i (family4 a)"

definition prefix_covers :: "prefix \<Rightarrow> addr \<Rightarrow> bool" where
  "prefix_covers p a \<longleftrightarrow>
     family4 (prefix_addr p) = family4 a \<and>
     (\<forall>i < min (prefix_bits p) (trie_bits a). trie_bit (prefix_addr p) i = trie_bit a i)"

text \<open>Whether the node at the end of a path exists and has an entry.\<close>

fun entry_at :: "cidrNode \<Rightarrow> 8 word list \<Rightarrow> bool" where
  "entry_at n [] = hasEntry n"
| "entry_at n (b # bs) = (case get_child n b of None \<Rightarrow> False | Some c \<Rightarrow> entry_at c bs)"

definition is_bit :: "8 word \<Rightarrow> bool" where
  "is_bit b \<longleftrightarrow> b = 0 \<or> b = 1"

lemma bitAt_is_bit [simp]: "is_bit (bitAt b i v)"
  by (simp add: bitAt_def is_bit_def Let_def and_one_eq mod_2_eq_odd)

lemma is_bit_simps [simp]: "is_bit 0" "is_bit 1"
  by (simp_all add: is_bit_def)

lemma hasEntry_set_child [simp]: "hasEntry (set_child n b c) = hasEntry n"
  by (cases n) simp

lemma get_set_child:
  "is_bit b \<Longrightarrow> is_bit b' \<Longrightarrow> get_child (set_child n b c) b' = (if b' = b then Some c else get_child n b')"
  by (cases n) (auto simp: is_bit_def)

lemma entry_at_set_entry [simp]:
  "entry_at (set_entry n) bs \<longleftrightarrow> bs = [] \<or> entry_at n bs"
  by (cases n; cases bs) auto

lemma entry_at_fresh [simp]: "entry_at (cidrNode e None None) bs \<longleftrightarrow> bs = [] \<and> e"
  by (cases bs) auto

lemma entry_at_insert_loop:
  assumes "\<forall>b \<in> set bs. is_bit b"
  shows "entry_at (insert_loop b v i k n) bs \<longleftrightarrow>
         bs = map (\<lambda>j. bitAt b j v) [i..<i + k] \<or> entry_at n bs"
  using assms
proof (induction k arbitrary: i n bs)
  case (Suc k)
  have upt: "[i..<i + Suc k] = i # [Suc i..<Suc i + k]"
    by (simp add: upt_conv_Cons)
  show ?case
  proof (cases bs)
    case Nil
    then show ?thesis by (simp add: Let_def upt)
  next
    case (Cons x xs)
    with Suc.prems have "is_bit x" and "\<forall>b \<in> set xs. is_bit b" by auto
    with Suc.IH [of xs "Suc i"] Cons show ?thesis
      unfolding upt by (auto simp: Let_def get_set_child split: option.splits)
  qed
qed simp

lemma contains_loop_entry:
  "\<not> hasEntry n \<Longrightarrow>
   contains_loop b v i k n \<longleftrightarrow> (\<exists>l \<le> k. entry_at n (map (\<lambda>j. bitAt b j v) [i..<i + l]))"
proof (induction k arbitrary: i n)
  case (Suc k)
  have split_l: "(\<exists>l \<le> Suc k. P l) \<longleftrightarrow> P 0 \<or> (\<exists>l \<le> k. P (Suc l))" for P
    by (metis Suc_le_mono le0 not0_implies_Suc)
  have upt: "[i..<i + Suc l] = i # [Suc i..<Suc i + l]" for l
    by (simp add: upt_conv_Cons)
  show ?case
  proof (cases "get_child n (bitAt b i v)")
    case None
    with Suc.prems show ?thesis unfolding split_l upt by simp
  next
    case (Some c)
    show ?thesis
    proof (cases "hasEntry c")
      case True
      with Some show ?thesis unfolding split_l upt by (auto intro: exI [of _ 0])
    next
      case False
      with Some Suc.prems Suc.IH [of c "Suc i"] show ?thesis unfolding split_l upt by simp
    qed
  qed
qed simp

text \<open>The lookup in terms of the entries on the path of the address.\<close>

definition trie_path :: "addr \<Rightarrow> nat \<Rightarrow> 8 word list" where
  "trie_path a l = map (trie_bit a) [0..<l]"

lemma trie_path_bits [simp]: "b \<in> set (trie_path a l) \<Longrightarrow> is_bit b"
  by (auto simp: trie_path_def trie_bit_def)

lemma trie_contains_entry:
  "trie_contains t a \<longleftrightarrow>
     (\<exists>n l. trie_root t a = Some n \<and> l \<le> trie_bits a \<and> entry_at n (trie_path a l))"
proof (cases "trie_root t a")
  case (Some n)
  show ?thesis
  proof (cases "hasEntry n")
    case True
    with Some show ?thesis
      by (auto simp: trie_contains_def trie_path_def intro!: exI [of _ 0])
  next
    case False
    with Some contains_loop_entry [OF False, of "as16 a" "family4 a" 0 "trie_bits a"] show ?thesis
      by (simp add: trie_contains_def trie_path_def trie_bits_def [symmetric]
          trie_bit_def [abs_def])
  qed
qed (simp add: trie_contains_def)

lemma trie_root_setRoot:
  "trie_root (setRoot t p n) a = (if family4 p = family4 a then Some n else trie_root t a)"
  by (simp add: trie_root_def setRoot_def)

definition path_len :: "prefix \<Rightarrow> nat" where
  "path_len p = min (prefix_bits p) (trie_bits (prefix_addr p))"

lemma trie_insert_root:
  "\<exists>n. trie_insert p t = setRoot t (prefix_addr p) n \<and>
       (\<forall>bs. (\<forall>b \<in> set bs. is_bit b) \<longrightarrow>
          (entry_at n bs \<longleftrightarrow> bs = trie_path (prefix_addr p) (path_len p) \<or>
             (\<exists>m. trie_root t (prefix_addr p) = Some m \<and> entry_at m bs)))"
proof (cases "prefix_bits p = 0")
  case True
  show ?thesis
  proof (cases "trie_root t (prefix_addr p)")
    case None
    with True show ?thesis
      by (intro exI [of _ "cidrNode True None None"])
         (simp add: trie_insert_def trie_path_def path_len_def)
  next
    case (Some m)
    with True show ?thesis
      by (intro exI [of _ "set_entry m"])
         (simp add: trie_insert_def trie_path_def path_len_def)
  qed
next
  case False
  let ?a = "prefix_addr p"
  have k: "(if trie_bits ?a < prefix_bits p then trie_bits ?a else prefix_bits p) = path_len p"
    by (simp add: path_len_def)
  have ins: "trie_insert p t =
      setRoot t ?a (insert_loop (as16 ?a) (family4 ?a) 0 (path_len p) (rootOrCreate t ?a))"
    using False by (simp add: trie_insert_def Let_def k [symmetric] trie_bits_def)
  show ?thesis
    unfolding ins
    by (intro exI conjI refl)
       (auto simp: entry_at_insert_loop trie_path_def trie_bit_def rootOrCreate_def
             split: option.splits)
qed

lemma trie_path_eq_iff:
  "trie_path a k = trie_path c l \<longleftrightarrow> k = l \<and> (\<forall>i < k. trie_bit a i = trie_bit c i)"
proof
  assume eq: "trie_path a k = trie_path c l"
  from arg_cong [OF eq, of length] have kl: "k = l" by (simp add: trie_path_def)
  moreover have "trie_bit a i = trie_bit c i" if "i < k" for i
    using arg_cong [OF eq, of "\<lambda>xs. xs ! i"] that kl by (simp add: trie_path_def)
  ultimately show "k = l \<and> (\<forall>i < k. trie_bit a i = trie_bit c i)" by blast
qed (auto simp: trie_path_def)

lemma trie_contains_insert:
  "trie_contains (trie_insert p t) a \<longleftrightarrow> prefix_covers p a \<or> trie_contains t a"
proof -
  obtain n where ins: "trie_insert p t = setRoot t (prefix_addr p) n"
    and ent: "\<And>bs. (\<And>b. b \<in> set bs \<Longrightarrow> is_bit b) \<Longrightarrow>
          entry_at n bs \<longleftrightarrow> bs = trie_path (prefix_addr p) (path_len p) \<or>
             (\<exists>m. trie_root t (prefix_addr p) = Some m \<and> entry_at m bs)"
    using trie_insert_root [of p t] by blast
  show ?thesis
  proof (cases "family4 (prefix_addr p) = family4 a")
    case False
    then show ?thesis
      by (simp add: trie_contains_entry ins trie_root_setRoot prefix_covers_def)
  next
    case True
    then have tb: "trie_bits (prefix_addr p) = trie_bits a" and
      tr: "trie_root t (prefix_addr p) = trie_root t a"
      by (simp_all add: trie_bits_def trie_root_def)
    have "trie_contains (trie_insert p t) a \<longleftrightarrow>
        (\<exists>l \<le> trie_bits a. trie_path a l = trie_path (prefix_addr p) (path_len p)) \<or> trie_contains t a"
      using True tr by (auto simp: trie_contains_entry ins trie_root_setRoot ent)
    moreover have "path_len p \<le> trie_bits a" by (simp add: path_len_def tb)
    ultimately show ?thesis
      using True by (auto simp: trie_path_eq_iff prefix_covers_def path_len_def tb)
  qed
qed

interpretation trie: prefix_set newCIDRTrie trie_insert trie_contains prefix_covers
proof unfold_locales
  show "\<not> trie_contains newCIDRTrie a" for a
    by (simp add: trie_contains_def trie_root_def newCIDRTrie_def)
qed (rule trie_contains_insert)

section \<open>The bits of an address are those of its value\<close>

lemma trie_bit_eq_iff:
  "trie_bit a i = trie_bit c j \<longleftrightarrow> (trie_bit a i = 1 \<longleftrightarrow> trie_bit c j = 1)"
  using bitAt_is_bit [of "as16 a" i "family4 a"] bitAt_is_bit [of "as16 c" j "family4 c"]
  by (auto simp: trie_bit_def is_bit_def)

lemma drop_bit_and_one: "(drop_bit k (w :: 8 word) AND 1 = 1) = bit w k"
  by (simp add: and_one_eq bit_iff_odd_drop_bit mod_2_eq_odd)

lemma trie_bit_as_ip:
  assumes "i < trie_bits a"
  shows "trie_bit a i = 1 \<longleftrightarrow> bit (as_ip a) (trie_bits a - 1 - i)"
proof -
  have d: "i = 8 * (i div 8) + i mod 8" "i mod 8 < 8" by simp_all
  define q r where "q = i div 8" and "r = i mod 8"
  with d have i: "i = 8 * q + r" "r < 8" by auto
  show ?thesis
  proof (cases "family4 a")
    case True
    with assms i have "q < 4" by (simp add: trie_bits_def)
    moreover from this i have "8 * (15 - (12 + q)) + (7 - r) = 31 - i" by simp
    ultimately show ?thesis using True
      by (simp add: trie_bit_def bitAt_def Let_def drop_bit_and_one q_def [symmetric]
          r_def [symmetric] as16_bit trie_bits_def)
  next
    case False
    with assms i have "q < 16" by (simp add: trie_bits_def)
    moreover from this i have "8 * (15 - q) + (7 - r) = 127 - i" by simp
    ultimately show ?thesis using False
      by (simp add: trie_bit_def bitAt_def Let_def drop_bit_and_one q_def [symmetric]
          r_def [symmetric] as16_bit trie_bits_def)
  qed
qed

lemma drop_bit_eq_leading:
  fixes v w :: "'a :: len word"
  assumes "n \<le> LENGTH('a)"
  shows "drop_bit (LENGTH('a) - n) v = drop_bit (LENGTH('a) - n) w \<longleftrightarrow>
         (\<forall>i < n. bit v (LENGTH('a) - 1 - i) = bit w (LENGTH('a) - 1 - i))" (is "?l \<longleftrightarrow> ?r")
proof
  assume ?l
  then have "bit v (LENGTH('a) - n + j) = bit w (LENGTH('a) - n + j)" for j
    by (metis bit_drop_bit_eq comp_apply)
  then have *: "bit v (LENGTH('a) - n + (n - 1 - i)) = bit w (LENGTH('a) - n + (n - 1 - i))" for i
    by blast
  have "LENGTH('a) - n + (n - 1 - i) = LENGTH('a) - 1 - i" if "i < n" for i
    using that assms by simp
  with * show ?r by metis
next
  assume r: ?r
  show ?l
  proof (rule bit_word_eqI)
    fix j assume "j < LENGTH('a)"
    show "bit (drop_bit (LENGTH('a) - n) v) j = bit (drop_bit (LENGTH('a) - n) w) j"
    proof (cases "j < n")
      case True
      with r [rule_format, of "n - 1 - j"] assms show ?thesis by (simp add: bit_drop_bit_eq)
    next
      case False
      with assms show ?thesis by (auto simp: bit_drop_bit_eq dest: bit_imp_le_length)
    qed
  qed
qed

lemma bit_ucast_low: "j < 32 \<Longrightarrow> bit (ucast (w :: 128 word) :: 32 word) j = bit w j"
  by (simp add: bit_ucast_iff)

lemma bit_map_v4: "j < 32 \<Longrightarrow> bit (map_v4 w) j = bit w j"
  using bit_ucast_low [of j "map_v4 w"] by simp

text \<open>The value whose leading bits the trie compares, and its width.\<close>

lemma prefix_covers_bits:
  "prefix_covers (Prefix p n) a \<longleftrightarrow>
     family4 p = family4 a \<and>
     (\<forall>i < min n (trie_bits a). bit (as_ip a) (trie_bits a - 1 - i) = bit (as_ip p) (trie_bits a - 1 - i))"
proof (cases "family4 p = family4 a")
  case True
  then have tb: "trie_bits p = trie_bits a" by (simp add: trie_bits_def)
  have "trie_bit p i = trie_bit a i \<longleftrightarrow>
        bit (as_ip a) (trie_bits a - 1 - i) = bit (as_ip p) (trie_bits a - 1 - i)"
    if "i < trie_bits a" for i
    using trie_bit_as_ip [of i a] trie_bit_as_ip [of i p] that tb
    by (auto simp: trie_bit_eq_iff [of p i a i])
  with True show ?thesis by (auto simp: prefix_covers_def)
qed (simp add: prefix_covers_def)

lemma prefix_covers_V4:
  assumes "n \<le> 32"
  shows "prefix_covers (Prefix (V4 p) n) (V4 w) \<longleftrightarrow> drop_bit (32 - n) w = drop_bit (32 - n) p"
  using drop_bit_eq_leading [of n w p] assms
  by (simp add: prefix_covers_bits trie_bits_def family4_def min_def bit_map_v4)

lemma prefix_covers_V6:
  assumes "n \<le> 128" and "\<not> v4_mapped p" and "\<not> v4_mapped w"
  shows "prefix_covers (Prefix (V6 p z) n) (V6 w y) \<longleftrightarrow> drop_bit (128 - n) w = drop_bit (128 - n) p"
  using drop_bit_eq_leading [of n w p] assms
  by (simp add: prefix_covers_bits trie_bits_def family4_def min_def)

lemma family4_simps [simp]:
  "family4 (V4 w)" "family4 (V6 v z) \<longleftrightarrow> v4_mapped v"
  by (simp_all add: family4_def)

lemma family4_unmap [simp]: "family4 (unmap a) = family4 a"
  by (cases a) auto

fun ipnet_wf :: "ipnet \<Rightarrow> bool" where
  "ipnet_wf (Net4 w n) = (n \<le> 32)"
| "ipnet_wf (Net6 w n) = (n \<le> 128)"

fun ipnet_mapped :: "ipnet \<Rightarrow> bool" where
  "ipnet_mapped (Net4 w n) = False"
| "ipnet_mapped (Net6 w n) = v4_mapped w"

lemma prefix_covers_zone: "prefix_covers p (V6 w z) = prefix_covers p (V6 w [])"
  by (cases p) (simp add: prefix_covers_bits trie_bits_def)

lemma ipNetToPrefix_covers:
  assumes "ipnet_wf inet" and "\<not> ipnet_mapped inet"
  shows "prefix_covers (ipNetToPrefix inet) (unmap a) \<longleftrightarrow> ipnet_contains inet (as_ip a)"
proof (cases inet)
  case (Net4 p n)
  with assms show ?thesis
    by (cases a) (simp_all add: prefix_covers_V4 prefix_covers_def [of _ "V6 _ _"])
next
  case (Net6 p n)
  with assms show ?thesis
    by (cases a) (simp_all add: prefix_covers_V6 addr_from_ip_def prefix_covers_def [of _ "V4 _"])
qed

lemma parse_cidr_wf: "parse_cidr s = Some inet \<Longrightarrow> ipnet_wf inet"
  by (auto simp: parse_cidr_def split: option.splits if_splits addr.splits)

end
