(* ===== verification/Matcher.thy ===== *)
theory Matcher
  imports Net_Addr Cidr_Trie
begin

text \<open>
  The package \<open>x/internal/matcher\<close>, file \<open>matcher.go\<close>: matchers built from a list of patterns,
  for IP addresses, host and port pairs, networks, domains, wildcards and IP ranges.

  All of them keep one contract, the locale \<open>pattern_matcher\<close>: a matcher built from a list
  matches a value exactly if one of the patterns does. The locale is interpreted for each matcher,
  so that what one pattern means is stated once and for a single pattern.

  A pointer receiver is an \<open>option\<close>, \<^term>\<open>None\<close> being nil. The compiler of wildcards
  (\<open>gobwas/glob\<close>) is the argument \<open>gl\<close>: it gives the match function of a pattern, or an error.
\<close>

section \<open>Splitting an address\<close>

definition splitHostPort :: "string \<Rightarrow> string \<times> string" where
  "splitHostPort addr =
     (if CHR '':'' \<notin> set addr then (addr, [])
      else let (host, port) = split_host_port_raw addr
           in if host = [] then (addr, port) else (host, port))"

section \<open>IP addresses\<close>

record ipMatcher =
  im_ips :: "addr set"

definition IPMatcher :: "ip list \<Rightarrow> ipMatcher option" where
  "IPMatcher ips =
     Some (fold (\<lambda>i m. m\<lparr> im_ips := insert (unmap (addr_from_ip i)) (im_ips m) \<rparr>) ips \<lparr> im_ips = {} \<rparr>)"

definition ipMatcher_Match :: "ipMatcher option \<Rightarrow> string \<Rightarrow> bool" where
  "ipMatcher_Match m v =
     (case m of
        None \<Rightarrow> False
      | Some m \<Rightarrow>
          if im_ips m = {} then False
          else case parse_addr v of None \<Rightarrow> False | Some a \<Rightarrow> unmap a \<in> im_ips m)"

section \<open>Hosts and ports\<close>

record addrMatcher =
  am_addrs :: "(string, PortRange option list) gomap"

definition append_range ::
  "string \<Rightarrow> PortRange option \<Rightarrow> addrMatcher \<Rightarrow> addrMatcher" where
  "append_range k pr m =
     m\<lparr> am_addrs := AList.update k
          ((case map_of (am_addrs m) k of None \<Rightarrow> [] | Some l \<Rightarrow> l) @ [pr]) (am_addrs m) \<rparr>"

definition addrMatcher_add :: "string \<Rightarrow> addrMatcher \<Rightarrow> addrMatcher" where
  "addrMatcher_add addr m =
     (let (host, port) = splitHostPort addr in
      if host = [] then append_range (to_lower addr) None m
      else append_range (to_lower host) (PortRange_Parse port) m)"

definition AddrMatcher :: "string list \<Rightarrow> addrMatcher option" where
  "AddrMatcher addrs = Some (fold addrMatcher_add addrs \<lparr> am_addrs = [] \<rparr>)"

definition portRangeMatch :: "PortRange option list \<Rightarrow> int \<Rightarrow> bool" where
  "portRangeMatch prs port =
     list_ex (\<lambda>pr. case pr of None \<Rightarrow> True | Some r \<Rightarrow> PortRange_Contains r port) prs"

definition addrs_lookup :: "addrMatcher \<Rightarrow> int \<Rightarrow> string \<Rightarrow> bool" where
  "addrs_lookup m port k =
     (case map_of (am_addrs m) k of None \<Rightarrow> False | Some prs \<Rightarrow> portRangeMatch prs port)"

definition addrMatcher_Match :: "addrMatcher option \<Rightarrow> string \<Rightarrow> bool" where
  "addrMatcher_Match m v =
     (case m of
        None \<Rightarrow> False
      | Some m \<Rightarrow>
          if am_addrs m = [] then False
          else let (h, sp) = splitHostPort v; host = to_lower h; port = fst (atoi sp) in
            if addrs_lookup m port host then True
            else if addrs_lookup m port (CHR ''.'' # host) then True
            else list_ex (addrs_lookup m port) (dot_suffixes host))"

section \<open>Networks\<close>

record cidrMatcher =
  cm_trie :: "cidrTrie option"

definition CIDRMatcher :: "ipnet list \<Rightarrow> cidrMatcher option" where
  "CIDRMatcher inets =
     Some \<lparr> cm_trie = Some (fold (\<lambda>inet. trie_insert (ipNetToPrefix inet)) inets newCIDRTrie) \<rparr>"

definition cidrMatcher_Match :: "cidrMatcher option \<Rightarrow> string \<Rightarrow> bool" where
  "cidrMatcher_Match m v =
     (case Option.bind m cm_trie of
        None \<Rightarrow> False
      | Some t \<Rightarrow> (case parse_addr v of None \<Rightarrow> False | Some a \<Rightarrow> trie_contains t (unmap a)))"

section \<open>Domains\<close>

record domainMatcher =
  dm_domains :: "string set"

definition DomainMatcher :: "string list \<Rightarrow> domainMatcher option" where
  "DomainMatcher domains =
     Some (fold (\<lambda>d m. m\<lparr> dm_domains := insert (to_lower d) (dm_domains m) \<rparr>) domains \<lparr> dm_domains = {} \<rparr>)"

definition domainMatcher_Match :: "domainMatcher option \<Rightarrow> string \<Rightarrow> bool" where
  "domainMatcher_Match m v =
     (case m of
        None \<Rightarrow> False
      | Some m \<Rightarrow>
          if dm_domains m = {} then False
          else let domain = to_lower v in
            if domain \<in> dm_domains m then True
            else if CHR ''.'' # domain \<in> dm_domains m then True
            else list_ex (\<lambda>s. s \<in> dm_domains m) (dot_suffixes domain))"

section \<open>Wildcards\<close>

type_synonym glob = "string \<Rightarrow> bool"

record wildcardMatcherPattern =
  wp_glob :: glob
  wp_pr :: "PortRange option"

record wildcardMatcher =
  wm_patterns :: "wildcardMatcherPattern list"

definition wildcardMatcher_add ::
  "(string \<Rightarrow> glob option) \<Rightarrow> string \<Rightarrow> wildcardMatcher \<Rightarrow> wildcardMatcher" where
  "wildcardMatcher_add gl pattern m =
     (let (h, port) = splitHostPort pattern; host = (if h = [] then pattern else h) in
      case gl (to_lower host) of
        None \<Rightarrow> m
      | Some g \<Rightarrow>
          m\<lparr> wm_patterns := wm_patterns m @ [\<lparr> wp_glob = g, wp_pr = PortRange_Parse port \<rparr>] \<rparr>)"

definition WildcardMatcher ::
  "(string \<Rightarrow> glob option) \<Rightarrow> string list \<Rightarrow> wildcardMatcher option" where
  "WildcardMatcher gl patterns = Some (fold (wildcardMatcher_add gl) patterns \<lparr> wm_patterns = [] \<rparr>)"

definition wildcardMatcher_Match :: "wildcardMatcher option \<Rightarrow> string \<Rightarrow> bool" where
  "wildcardMatcher_Match m v =
     (case m of
        None \<Rightarrow> False
      | Some m \<Rightarrow>
          if wm_patterns m = [] then False
          else let (h, sp) = splitHostPort v; host = to_lower h; port = fst (atoi sp) in
            list_ex (\<lambda>p. wp_glob p host \<and>
                         (case wp_pr p of None \<Rightarrow> True | Some r \<Rightarrow> PortRange_Contains r port))
              (wm_patterns m))"

section \<open>IP ranges, and the matcher that never matches\<close>

record ipRangeMatcher =
  rm_ranges :: "IPRange list"

definition IPRangeMatcher :: "IPRange list \<Rightarrow> ipRangeMatcher option" where
  "IPRangeMatcher ranges = Some \<lparr> rm_ranges = ranges \<rparr>"

definition ipRangeMatcher_Match :: "ipRangeMatcher option \<Rightarrow> string \<Rightarrow> bool" where
  "ipRangeMatcher_Match m v =
     (case m of
        None \<Rightarrow> False
      | Some m \<Rightarrow>
          if rm_ranges m = [] then False
          else case parse_addr (fst (splitHostPort v)) of
                 None \<Rightarrow> False
               | Some a \<Rightarrow> list_ex (\<lambda>r. IPRange_Contains r a) (rm_ranges m))"

definition nopMatcher_Match :: "string \<Rightarrow> bool" where
  "nopMatcher_Match v = False"

section \<open>The contract of a matcher\<close>

locale pattern_matcher =
  fixes build :: "'p list \<Rightarrow> 'm"
    and Match :: "'m \<Rightarrow> string \<Rightarrow> bool"
    and matches1 :: "'p \<Rightarrow> string \<Rightarrow> bool"
  assumes Match_build: "Match (build ps) v \<longleftrightarrow> (\<exists>p \<in> set ps. matches1 p v)"
begin

lemma Match_empty: "\<not> Match (build []) v"
  by (simp add: Match_build)

lemma Match_single: "Match (build [p]) v \<longleftrightarrow> matches1 p v"
  by (simp add: Match_build)

lemma Match_append: "Match (build (ps @ qs)) v \<longleftrightarrow> Match (build ps) v \<or> Match (build qs) v"
  by (auto simp: Match_build)

lemma Match_mono: "set ps \<subseteq> set qs \<Longrightarrow> Match (build ps) v \<Longrightarrow> Match (build qs) v"
  by (auto simp: Match_build)

lemma Match_order: "set ps = set qs \<Longrightarrow> Match (build ps) v = Match (build qs) v"
  by (auto simp: Match_build)

end

section \<open>What one pattern matches\<close>

definition ip1 :: "ip \<Rightarrow> string \<Rightarrow> bool" where
  "ip1 i v \<longleftrightarrow> (case parse_addr v of None \<Rightarrow> False | Some a \<Rightarrow> unmap a = unmap (addr_from_ip i))"

text \<open>The keys under which a host is found.\<close>

definition host_keys :: "string \<Rightarrow> string list" where
  "host_keys host = host # (CHR ''.'' # host) # dot_suffixes host"

definition addr_key :: "string \<Rightarrow> string" where
  "addr_key p = to_lower (if fst (splitHostPort p) = [] then p else fst (splitHostPort p))"

definition addr_range :: "string \<Rightarrow> PortRange option" where
  "addr_range p =
     (if fst (splitHostPort p) = [] then None else PortRange_Parse (snd (splitHostPort p)))"

definition in_range :: "PortRange option \<Rightarrow> int \<Rightarrow> bool" where
  "in_range r port \<longleftrightarrow> (case r of None \<Rightarrow> True | Some r \<Rightarrow> PortRange_Contains r port)"

definition value_host :: "string \<Rightarrow> string" where
  "value_host v = to_lower (fst (splitHostPort v))"

definition value_port :: "string \<Rightarrow> int" where
  "value_port v = fst (atoi (snd (splitHostPort v)))"

definition addr1 :: "string \<Rightarrow> string \<Rightarrow> bool" where
  "addr1 p v \<longleftrightarrow> addr_key p \<in> set (host_keys (value_host v)) \<and> in_range (addr_range p) (value_port v)"

definition cidr1 :: "ipnet \<Rightarrow> string \<Rightarrow> bool" where
  "cidr1 n v \<longleftrightarrow> (case parse_addr v of None \<Rightarrow> False | Some a \<Rightarrow> prefix_covers (ipNetToPrefix n) (unmap a))"

definition domain1 :: "string \<Rightarrow> string \<Rightarrow> bool" where
  "domain1 d v \<longleftrightarrow> to_lower d \<in> set (host_keys (to_lower v))"

definition wildcard1 :: "(string \<Rightarrow> glob option) \<Rightarrow> string \<Rightarrow> string \<Rightarrow> bool" where
  "wildcard1 gl p v \<longleftrightarrow>
     (case gl (addr_key p) of None \<Rightarrow> False | Some g \<Rightarrow> g (value_host v)) \<and>
     in_range (PortRange_Parse (snd (splitHostPort p))) (value_port v)"

definition range1 :: "IPRange \<Rightarrow> string \<Rightarrow> bool" where
  "range1 r v \<longleftrightarrow>
     (case parse_addr (fst (splitHostPort v)) of None \<Rightarrow> False | Some a \<Rightarrow> IPRange_Contains r a)"

section \<open>The matchers keep the contract\<close>

lemma ips_fold:
  "im_ips (fold (\<lambda>i m. m\<lparr> im_ips := insert (unmap (addr_from_ip i)) (im_ips m) \<rparr>) ips m) =
   (\<lambda>i. unmap (addr_from_ip i)) ` set ips \<union> im_ips m"
  by (induction ips arbitrary: m) auto

interpretation ip_matcher: pattern_matcher IPMatcher ipMatcher_Match ip1
proof unfold_locales
  show "ipMatcher_Match (IPMatcher ps) v \<longleftrightarrow> (\<exists>p \<in> set ps. ip1 p v)" for ps v
    by (auto simp: ipMatcher_Match_def IPMatcher_def ips_fold ip1_def split: option.splits)
qed

lemma addrMatcher_add_alt: "addrMatcher_add p = append_range (addr_key p) (addr_range p)"
  by (auto simp: addrMatcher_add_def addr_key_def addr_range_def fun_eq_iff split: prod.splits)

lemma addrs_lookup_append_range:
  "addrs_lookup (append_range k r m) port j \<longleftrightarrow> (j = k \<and> in_range r port) \<or> addrs_lookup m port j"
  by (auto simp: addrs_lookup_def append_range_def update_conv' portRangeMatch_def in_range_def
      split: option.splits)

lemma addrs_lookup_fold:
  "addrs_lookup (fold addrMatcher_add ps m) port k \<longleftrightarrow>
   (\<exists>p \<in> set ps. k = addr_key p \<and> in_range (addr_range p) port) \<or> addrs_lookup m port k"
  by (induction ps arbitrary: m) (auto simp: addrMatcher_add_alt addrs_lookup_append_range)

lemma addrs_lookup_empty: "am_addrs m = [] \<Longrightarrow> \<not> addrs_lookup m port k"
  by (simp add: addrs_lookup_def)

lemma addrMatcher_Match_keys:
  "addrMatcher_Match (Some m) v \<longleftrightarrow>
     (\<exists>k \<in> set (host_keys (value_host v)). addrs_lookup m (value_port v) k)"
  by (cases "splitHostPort v")
     (auto simp: addrMatcher_Match_def host_keys_def value_host_def value_port_def Let_def
      addrs_lookup_empty list_ex_iff)

interpretation addr_matcher: pattern_matcher AddrMatcher addrMatcher_Match addr1
proof unfold_locales
  show "addrMatcher_Match (AddrMatcher ps) v \<longleftrightarrow> (\<exists>p \<in> set ps. addr1 p v)" for ps v
    unfolding AddrMatcher_def addrMatcher_Match_keys addr1_def
    by (auto simp: addrs_lookup_fold addrs_lookup_empty)
qed

interpretation cidr_matcher: pattern_matcher CIDRMatcher cidrMatcher_Match cidr1
proof unfold_locales
  have "fold (\<lambda>inet. trie_insert (ipNetToPrefix inet)) ps newCIDRTrie =
        trie.build (map ipNetToPrefix ps)" for ps
    by (simp add: trie.build_def fold_map comp_def)
  then show "cidrMatcher_Match (CIDRMatcher ps) v \<longleftrightarrow> (\<exists>p \<in> set ps. cidr1 p v)" for ps v
    by (auto simp: cidrMatcher_Match_def CIDRMatcher_def cidr1_def trie.contains_build
        split: option.splits)
qed

lemma domains_fold:
  "dm_domains (fold (\<lambda>d m. m\<lparr> dm_domains := insert (to_lower d) (dm_domains m) \<rparr>) ds m) =
   to_lower ` set ds \<union> dm_domains m"
  by (induction ds arbitrary: m) auto

lemma domainMatcher_Match_keys:
  "domainMatcher_Match (Some m) v \<longleftrightarrow> (\<exists>k \<in> set (host_keys (to_lower v)). k \<in> dm_domains m)"
  by (auto simp: domainMatcher_Match_def host_keys_def Let_def list_ex_iff)

interpretation domain_matcher: pattern_matcher DomainMatcher domainMatcher_Match domain1
proof unfold_locales
  show "domainMatcher_Match (DomainMatcher ps) v \<longleftrightarrow> (\<exists>p \<in> set ps. domain1 p v)" for ps v
    unfolding DomainMatcher_def domainMatcher_Match_keys domain1_def
    by (auto simp: domains_fold)
qed

lemma wildcard_patterns_fold:
  "wm_patterns (fold (wildcardMatcher_add gl) ps m) =
   wm_patterns m @
   concat (map (\<lambda>p. case gl (addr_key p) of
                      None \<Rightarrow> []
                    | Some g \<Rightarrow> [\<lparr> wp_glob = g, wp_pr = PortRange_Parse (snd (splitHostPort p)) \<rparr>]) ps)"
  by (induction ps arbitrary: m)
     (auto simp: wildcardMatcher_add_def addr_key_def split: prod.splits option.splits)

lemma wildcardMatcher_Match_patterns:
  "wildcardMatcher_Match (Some m) v \<longleftrightarrow>
     (\<exists>p \<in> set (wm_patterns m). wp_glob p (value_host v) \<and> in_range (wp_pr p) (value_port v))"
  by (cases "splitHostPort v")
     (auto simp: wildcardMatcher_Match_def value_host_def value_port_def in_range_def list_ex_iff)

lemma bex_set_case_option:
  "(\<exists>x \<in> set (case q of None \<Rightarrow> [] | Some g \<Rightarrow> [f g]). P x) \<longleftrightarrow> (case q of None \<Rightarrow> False | Some g \<Rightarrow> P (f g))"
  by (cases q) auto

interpretation wildcard_matcher:
  pattern_matcher "WildcardMatcher gl" wildcardMatcher_Match "wildcard1 gl" for gl
proof unfold_locales
  show "wildcardMatcher_Match (WildcardMatcher gl ps) v \<longleftrightarrow> (\<exists>p \<in> set ps. wildcard1 gl p v)" for ps v
    unfolding WildcardMatcher_def wildcardMatcher_Match_patterns wildcard_patterns_fold
    by (simp add: bex_set_case_option wildcard1_def)
       (rule bex_cong; simp split: option.splits)
qed

interpretation range_matcher: pattern_matcher IPRangeMatcher ipRangeMatcher_Match range1
proof unfold_locales
  show "ipRangeMatcher_Match (IPRangeMatcher ps) v \<longleftrightarrow> (\<exists>p \<in> set ps. range1 p v)" for ps v
    by (auto simp: ipRangeMatcher_Match_def IPRangeMatcher_def range1_def list_ex_iff
        split: option.splits)
qed

section \<open>Domain patterns on well-formed names\<close>

lemma dot_suffixes_dot: "s \<in> set (dot_suffixes v) \<Longrightarrow> \<exists>t. s = CHR ''.'' # t"
proof (induction v rule: dot_suffixes.induct)
  case (1 v)
  show ?case
  proof (cases "index_byte v (CHR ''.'')")
    case None
    with 1 show ?thesis by simp
  next
    case (Some i)
    then have d: "drop i v = CHR ''.'' # drop (Suc i) v"
      by (metis Cons_nth_drop_Suc index_byte_SomeD)
    show ?thesis
    proof (cases "i = 0")
      case True
      with 1 Some show ?thesis by (simp add: dot_suffixes.simps [of v])
    next
      case False
      with 1 Some d show ?thesis by (auto simp: dot_suffixes.simps [of v])
    qed
  qed
qed

lemma host_keys_plain:
  "d = [] \<or> hd d \<noteq> CHR ''.'' \<Longrightarrow> d \<in> set (host_keys v) \<longleftrightarrow> d = v"
  by (auto simp: host_keys_def dest: dot_suffixes_dot)

lemma host_keys_dotted:
  assumes "clean_name v"
  shows "CHR ''.'' # d \<in> set (host_keys v) \<longleftrightarrow> v = d \<or> suffix (CHR ''.'' # d) v"
proof -
  have "v \<noteq> CHR ''.'' # d"
    using assms clean_name_label [of "[]" d] by auto
  then show ?thesis
    using dot_suffixes_clean [OF assms] by (auto simp: host_keys_def)
qed

lemma lower_char_dot: "lower_char c = CHR ''.'' \<longleftrightarrow> c = CHR ''.''"
proof
  assume l: "lower_char c = CHR ''.''"
  show "c = CHR ''.''"
  proof (cases "65 \<le> char_code c \<and> char_code c \<le> 90")
    case True
    have "char_code (CHR ''.'') = 46" by code_simp
    moreover from True have "char_code (lower_char c) = char_code c + 32"
      by (simp add: lower_char_def)
    ultimately show ?thesis using l True by simp
  next
    case False
    with l show ?thesis by (simp add: lower_char_def split: if_splits)
  qed
next
  have "lower_char (CHR ''.'') = CHR ''.''" by code_simp
  then show "c = CHR ''.'' \<Longrightarrow> lower_char c = CHR ''.''" by simp
qed

lemma hd_to_lower_dot: "d \<noteq> [] \<Longrightarrow> hd d \<noteq> CHR ''.'' \<Longrightarrow> hd (to_lower d) \<noteq> CHR ''.''"
  by (cases d) (auto simp: to_lower_def lower_char_dot)

lemma to_lower_dot_Cons: "to_lower (CHR ''.'' # d) = CHR ''.'' # to_lower d"
  by (simp add: to_lower_def lower_char_dot [THEN iffD2])

lemma domain1_plain:
  assumes "d \<noteq> []" "hd d \<noteq> CHR ''.''"
  shows "domain1 d v \<longleftrightarrow> to_lower v = to_lower d"
  using host_keys_plain [of "to_lower d" "to_lower v"] hd_to_lower_dot [OF assms]
  by (auto simp: domain1_def)

lemma domain1_dotted:
  assumes "clean_name (to_lower v)"
  shows "domain1 (CHR ''.'' # d) v \<longleftrightarrow>
         to_lower v = to_lower d \<or> suffix (CHR ''.'' # to_lower d) (to_lower v)"
  using host_keys_dotted [OF assms] by (simp add: domain1_def to_lower_dot_Cons)

section \<open>Properties\<close>

text \<open>
  (C4) The network matcher, which walks a binary trie of prefixes, agrees with the library's
  \<open>net.IPNet.Contains\<close> for every list of networks whose base address is not an
  IPv4-mapped IPv6 address.
\<close>

theorem cidr_matcher_contains:
  assumes "\<forall>n \<in> set nets. ipnet_wf n \<and> \<not> ipnet_mapped n" and "parse_addr v = Some a"
  shows "cidrMatcher_Match (CIDRMatcher nets) v \<longleftrightarrow> (\<exists>n \<in> set nets. ipnet_contains n (as_ip a))"
  using assms ipNetToPrefix_covers
  by (auto simp: cidr_matcher.Match_build cidr1_def)

theorem cidr_matcher_contains_witness:
  "cidrMatcher_Match (CIDRMatcher [Net4 0x0a000000 8, Net6 (0xfd * 2 ^ 120) 8]) ''::ffff:10.1.2.3''"
proof -
  have "cidrMatcher_Match (CIDRMatcher [Net4 0x0a000000 8, Net6 (0xfd * 2 ^ 120) 8]) ''::ffff:10.1.2.3'' \<longleftrightarrow>
        (\<exists>n \<in> set [Net4 0x0a000000 8, Net6 (0xfd * 2 ^ 120) 8]. ipnet_contains n (as_ip (V6 0xffff0a010203 [])))"
    by (rule cidr_matcher_contains) code_simp+
  also have "\<dots>" by code_simp
  finally show ?thesis by simp
qed


text \<open>
  (C6) The domain matcher on a name without empty labels: it matches, up to the case of letters,
  exactly if the name is one of the patterns, or a pattern is \<^verbatim>\<open>.d\<close> and the name is \<^verbatim>\<open>d\<close> or ends in \<^verbatim>\<open>.d\<close>.
\<close>

theorem domain_matcher_subdomains:
  assumes "clean_name (to_lower v)" and "[] \<notin> set ds"
  shows "domainMatcher_Match (DomainMatcher ds) v \<longleftrightarrow>
         (\<exists>d \<in> set ds. to_lower v = to_lower d) \<or>
         (\<exists>d. CHR ''.'' # d \<in> set ds \<and>
              (to_lower v = to_lower d \<or> suffix (CHR ''.'' # to_lower d) (to_lower v)))"
proof -
  have split_d: "domain1 p v \<longleftrightarrow> to_lower v = to_lower p \<or>
      (\<exists>d. p = CHR ''.'' # d \<and> (to_lower v = to_lower d \<or> suffix (CHR ''.'' # to_lower d) (to_lower v)))"
    if "p \<in> set ds" for p
  proof (cases "hd p = CHR ''.''")
    case True
    from that assms(2) have "p \<noteq> []" by auto
    with True obtain d where "p = CHR ''.'' # d" by (metis list.collapse)
    then show ?thesis
      using domain1_dotted [OF assms(1), of d] by (auto simp: to_lower_dot_Cons)
  next
    case False
    moreover from that assms(2) have "p \<noteq> []" by auto
    ultimately show ?thesis using domain1_plain [of p v] by auto
  qed
  then show ?thesis by (auto simp: domain_matcher.Match_build)
qed

theorem domain_matcher_subdomains_witness:
  "domainMatcher_Match (DomainMatcher [''.Example.com'', ''host'']) ''A.b.example.COM'' \<and>
   \<not> domainMatcher_Match (DomainMatcher [''.Example.com'', ''host'']) ''myexample.com''"
proof -
  have l: "to_lower ''.Example.com'' = ''.example.com''" "to_lower ''Example.com'' = ''example.com''"
    "to_lower ''host'' = ''host''" by code_simp+
  have m: "domainMatcher_Match (DomainMatcher [''.Example.com'', ''host'']) v \<longleftrightarrow>
      to_lower v = ''.example.com'' \<or> to_lower v = ''host'' \<or>
      to_lower v = ''example.com'' \<or> suffix ''.example.com'' (to_lower v)"
    if "clean_name (to_lower v)" for v
    using domain_matcher_subdomains [OF that, of "[''.Example.com'', ''host'']"]
    by (simp add: l)
  show ?thesis
    by (intro conjI; subst m) code_simp+
qed

end
