(* ===== verification/Loader.thy ===== *)
theory Loader
  imports Gost_Prelude
begin

text \<open>
  What the reloadable components share: the answers of the external loaders (\<open>x/internal/loader\<close>,
  whose file, Redis and HTTP implementations do the input and output) and the line scanner of
  Go's \<open>bufio\<close> that reads them.

  A loader that is asked for its content answers \<open>Load\<close> with a stream or nil, and, if it
  implements the interface \<open>Lister\<close>, \<open>List\<close> with a list of lines. The answers at the time of a
  reload are arguments of the models. The loaders of an error return nothing, which the callers
  log and treat as an empty answer.
\<close>

record loader =
  ld_List :: "string list option"  \<comment> \<open>\<^term>\<open>None\<close>: the loader is not a \<open>Lister\<close>\<close>
  ld_Load :: "string option"  \<comment> \<open>\<^term>\<open>None\<close>: the nil reader\<close>

record loaders =
  fileLoader :: "loader option"
  redisLoader :: "loader option"
  httpLoader :: "loader option"

definition no_loaders :: loaders where
  "no_loaders = \<lparr> fileLoader = None, redisLoader = None, httpLoader = None \<rparr>"

section \<open>The line scanner\<close>

text \<open>
  \<open>bufio.Scanner\<close> with \<open>ScanLines\<close>: lines end at a newline, a carriage return before it is
  dropped, an empty last line is no line, and the scan stops at a line that does not fit
  into the buffer of 65536 bytes.
\<close>

definition raw_lines :: "string \<Rightarrow> string list" where
  "raw_lines s = (let ls = split_on (char_of (10 :: nat)) s
                  in if last ls = [] then butlast ls else ls)"

definition drop_cr :: "string \<Rightarrow> string" where
  "drop_cr l = (if l \<noteq> [] \<and> last l = char_of (13 :: nat) then butlast l else l)"

definition scan_lines :: "string \<Rightarrow> string list" where
  "scan_lines s = map drop_cr (takeWhile (\<lambda>l. int (length l) < 65536) (raw_lines s))"

section \<open>Collecting the lines of the loaders\<close>

text \<open>
  The shape of the \<open>load\<close> functions: the file's lines go through \<open>pf\<close>, the members of a Redis
  list through \<open>pr\<close>, and the lines of a stream through \<open>ps\<close>.
\<close>

definition load_with ::
  "(string \<Rightarrow> 'a list) \<Rightarrow> (string \<Rightarrow> 'a list) \<Rightarrow> (string \<Rightarrow> 'a list) \<Rightarrow> loaders \<Rightarrow> 'a list" where
  "load_with pf pr ps ls =
     (let stream = (\<lambda>r. case r of None \<Rightarrow> [] | Some s \<Rightarrow> concat (map ps (scan_lines s))) in
      (case fileLoader ls of
         None \<Rightarrow> []
       | Some l \<Rightarrow> (case ld_List l of
                      Some list \<Rightarrow> concat (map pf list)
                    | None \<Rightarrow> stream (ld_Load l))) @
      (case redisLoader ls of
         None \<Rightarrow> []
       | Some l \<Rightarrow> (case ld_List l of
                      Some list \<Rightarrow> concat (map pr list)
                    | None \<Rightarrow> stream (ld_Load l))) @
      (case httpLoader ls of
         None \<Rightarrow> []
       | Some l \<Rightarrow> stream (ld_Load l)))"

lemma load_with_none [simp]: "load_with pf pr ps no_loaders = []"
  by (simp add: load_with_def no_loaders_def)

section \<open>Comments\<close>

text \<open>The text of a line without its comment, trimmed.\<close>

definition strip_comment :: "string \<Rightarrow> string" where
  "strip_comment s =
     trim_space (case index_byte s (CHR ''#'') of None \<Rightarrow> s | Some n \<Rightarrow> take n s)"

lemma strip_comment_hash [simp]: "strip_comment (CHR ''#'' # s) = []"
  by (simp add: strip_comment_def)

lemma strip_comment_append:
  assumes "CHR ''#'' \<notin> set s" shows "strip_comment (s @ CHR ''#'' # t) = strip_comment s"
  using assms index_byte_append [of "CHR ''#''" s t]
  by (simp add: strip_comment_def index_byte_None [THEN iffD2])

end
