(* ===== verification/Bypass.thy ===== *)
theory Bypass
  imports Matcher Loader
begin

text \<open>
  The package \<open>x/bypass\<close>: which addresses skip the proxy chain. A local bypass holds patterns,
  classified into matchers at each reload, and applies them as a blacklist or a whitelist;
  a group combines several bypasses.

  The wildcard compiler \<open>gl\<close> is an argument, as are the answers of the loaders at a reload.
  Logging and the lock are left out: a call of \<open>Contains\<close> sees the pattern set of one reload.
\<close>

section \<open>Options and state\<close>

record bypass_options =
  bo_whitelist :: bool
  bo_network :: string
  bo_matchers :: "string list"
  bo_file :: bool  \<comment> \<open>whether the loader is configured\<close>
  bo_redis :: bool
  bo_http :: bool
  bo_period :: int  \<comment> \<open>nanoseconds\<close>

datatype bypassDecision = decisionBypass | decisionProxy

record patternSet =
  ps_cidr :: "cidrMatcher option"
  ps_addr :: "addrMatcher option"
  ps_wildcard :: "wildcardMatcher option"
  ps_ipRange :: "ipRangeMatcher option"

record localBypass =
  lb_patterns :: "patternSet option"
  lb_options :: bypass_options

section \<open>Matching\<close>

definition matchAny :: "patternSet option \<Rightarrow> string \<Rightarrow> bool" where
  "matchAny ps addr =
     (case ps of
        None \<Rightarrow> False
      | Some ps \<Rightarrow>
          if ipRangeMatcher_Match (ps_ipRange ps) addr then True
          else if addrMatcher_Match (ps_addr ps) addr then True
          else let h = fst (split_host_port_raw addr); host = (if h = [] then addr else h) in
            if parse_ip host \<noteq> None \<and> cidrMatcher_Match (ps_cidr ps) host then True
            else wildcardMatcher_Match (ps_wildcard ps) addr)"

section \<open>Loading\<close>

record pattern_lists =
  pl_addrs :: "string list"
  pl_inets :: "ipnet list"
  pl_wildcards :: "string list"
  pl_ipRanges :: "IPRange list"

definition classify1 ::
  "(string \<Rightarrow> glob option) \<Rightarrow> string \<Rightarrow> pattern_lists \<Rightarrow> pattern_lists" where
  "classify1 gl pattern l =
     (case parse_cidr pattern of
        Some inet \<Rightarrow> l\<lparr> pl_inets := pl_inets l @ [inet] \<rparr>
      | None \<Rightarrow>
          if (CHR ''*'' \<in> set pattern \<or> CHR ''?'' \<in> set pattern) \<and> gl pattern \<noteq> None
          then l\<lparr> pl_wildcards := pl_wildcards l @ [pattern] \<rparr>
          else case IPRange_Parse pattern of
                 Some r \<Rightarrow> l\<lparr> pl_ipRanges := pl_ipRanges l @ [r] \<rparr>
               | None \<Rightarrow> l\<lparr> pl_addrs := pl_addrs l @ [pattern] \<rparr>)"

definition classifyPatterns :: "(string \<Rightarrow> glob option) \<Rightarrow> string list \<Rightarrow> patternSet" where
  "classifyPatterns gl patterns =
     (let l = fold (classify1 gl) patterns
                \<lparr> pl_addrs = [], pl_inets = [], pl_wildcards = [], pl_ipRanges = [] \<rparr>
      in \<lparr> ps_cidr = CIDRMatcher (pl_inets l), ps_addr = AddrMatcher (pl_addrs l),
           ps_wildcard = WildcardMatcher gl (pl_wildcards l),
           ps_ipRange = IPRangeMatcher (pl_ipRanges l) \<rparr>)"

definition bypass_parseLine :: "string \<Rightarrow> string" where
  "bypass_parseLine s =
     trim_space (case index_byte s (CHR ''#'') of None \<Rightarrow> s | Some n \<Rightarrow> take n s)"

definition bypass_parsePatterns :: "string option \<Rightarrow> string list" where
  "bypass_parsePatterns r =
     (case r of
        None \<Rightarrow> []
      | Some s \<Rightarrow> filter (\<lambda>line. line \<noteq> []) (map bypass_parseLine (scan_lines s)))"

definition bypass_load :: "loaders \<Rightarrow> string list" where
  "bypass_load ls =
     (case fileLoader ls of
        None \<Rightarrow> []
      | Some l \<Rightarrow> (case ld_List l of
                     Some list \<Rightarrow> filter (\<lambda>line. line \<noteq> []) (map bypass_parseLine list)
                   | None \<Rightarrow> bypass_parsePatterns (ld_Load l))) @
     (case redisLoader ls of
        None \<Rightarrow> []
      | Some l \<Rightarrow> (case ld_List l of
                     Some list \<Rightarrow> list
                   | None \<Rightarrow> bypass_parsePatterns (ld_Load l))) @
     (case httpLoader ls of
        None \<Rightarrow> []
      | Some l \<Rightarrow> bypass_parsePatterns (ld_Load l))"

text \<open>A reload: an empty list of patterns leaves the pattern set as it is.\<close>

definition bypass_reload ::
  "(string \<Rightarrow> glob option) \<Rightarrow> loaders \<Rightarrow> localBypass \<Rightarrow> localBypass" where
  "bypass_reload gl ls p =
     (let patterns = bo_matchers (lb_options p) @ bypass_load ls in
      if length patterns > 0 then p\<lparr> lb_patterns := Some (classifyPatterns gl patterns) \<rparr> else p)"

definition hasLoaders :: "localBypass \<Rightarrow> bool" where
  "hasLoaders p \<longleftrightarrow> bo_file (lb_options p) \<or> bo_redis (lb_options p) \<or> bo_http (lb_options p) \<or>
                  bo_period (lb_options p) > 0"

text \<open>The background reload: a first one, and, with a period, one per tick until the context is
  cancelled; the argument \<open>ticks\<close> has the answers of the loaders at these ticks.\<close>

definition bypass_periodReload ::
  "(string \<Rightarrow> glob option) \<Rightarrow> loaders \<Rightarrow> loaders list \<Rightarrow> localBypass \<Rightarrow> localBypass" where
  "bypass_periodReload gl first ticks p =
     (let p1 = bypass_reload gl first p in
      if bo_period (lb_options p) \<le> 0 then p1 else fold (bypass_reload gl) ticks p1)"

text \<open>A new bypass, before its background reload has run if it has one.\<close>

definition NewBypass :: "(string \<Rightarrow> glob option) \<Rightarrow> bypass_options \<Rightarrow> localBypass" where
  "NewBypass gl opts =
     (let p = \<lparr> lb_patterns = None, lb_options = opts \<rparr> in
      if hasLoaders p then p else bypass_reload gl no_loaders p)"

section \<open>The decision\<close>

definition decide :: "localBypass \<Rightarrow> string \<Rightarrow> string \<Rightarrow> bypassDecision" where
  "decide p network addr =
     (let opts = lb_options p in
      if bo_network opts \<noteq> [] \<and> bo_network opts \<noteq> network then decisionProxy
      else case lb_patterns p of
        None \<Rightarrow>
          if bo_network opts \<noteq> [] then
            (if bo_whitelist opts then decisionProxy else decisionBypass)
          else decisionProxy
      | Some ps \<Rightarrow>
          let matched = matchAny (Some ps) addr in
          if bo_whitelist opts then (if matched then decisionProxy else decisionBypass)
          else (if matched then decisionBypass else decisionProxy))"

definition localBypass_Contains :: "localBypass option \<Rightarrow> string \<Rightarrow> string \<Rightarrow> bool" where
  "localBypass_Contains p network addr =
     (case p of
        None \<Rightarrow> False
      | Some p \<Rightarrow> if addr = [] then False else decide p network addr = decisionBypass)"

definition localBypass_IsWhitelist :: "localBypass \<Rightarrow> bool" where
  "localBypass_IsWhitelist p = bo_whitelist (lb_options p)"

section \<open>Groups\<close>

text \<open>The first loop of \<open>evaluate\<close>, over the pairs of \<open>IsWhitelist\<close> and \<open>Contains\<close> of the members:
  whether there is a whitelist, and whether all of them agree.\<close>

fun whitelist_loop :: "(bool \<times> bool) list \<Rightarrow> bool \<Rightarrow> bool \<times> bool" where
  "whitelist_loop [] has = (has, True)"
| "whitelist_loop ((wl, c) # rest) has =
     (if \<not> wl then whitelist_loop rest has
      else if \<not> c then (True, False)
      else whitelist_loop rest True)"

fun blacklist_loop :: "(bool \<times> bool) list \<Rightarrow> bypassDecision" where
  "blacklist_loop [] = decisionProxy"
| "blacklist_loop ((wl, c) # rest) =
     (if wl then blacklist_loop rest
      else if c then decisionBypass
      else blacklist_loop rest)"

definition bypassGroup_evaluate :: "(bool \<times> bool) list \<Rightarrow> bypassDecision" where
  "bypassGroup_evaluate bs =
     (let (hasWhitelist, allWhitelistBypass) = whitelist_loop bs False in
      if hasWhitelist \<and> allWhitelistBypass then decisionBypass else blacklist_loop bs)"

text \<open>
  The implementations of the interface: the local one, a group, and any other (a plugin), given by
  its two methods.
\<close>

datatype bypass =
    LocalBypass localBypass
  | BypassGroup "bypass list"
  | ExtBypass bool "string \<Rightarrow> string \<Rightarrow> bool"

fun IsWhitelist :: "bypass \<Rightarrow> bool" where
  "IsWhitelist (LocalBypass p) = localBypass_IsWhitelist p"
| "IsWhitelist (BypassGroup bs) = False"
| "IsWhitelist (ExtBypass wl f) = wl"

fun bypass_Contains :: "bypass \<Rightarrow> string \<Rightarrow> string \<Rightarrow> bool" where
  "bypass_Contains (LocalBypass p) network addr = localBypass_Contains (Some p) network addr"
| "bypass_Contains (BypassGroup bs) network addr =
     (bypassGroup_evaluate (map (\<lambda>b. (IsWhitelist b, bypass_Contains b network addr)) bs) =
      decisionBypass)"
| "bypass_Contains (ExtBypass wl f) network addr = f network addr"

section \<open>What a pattern matches\<close>

definition target_host :: "string \<Rightarrow> string" where
  "target_host addr =
     (let h = fst (split_host_port_raw addr) in if h = [] then addr else h)"

definition pattern_matches :: "(string \<Rightarrow> glob option) \<Rightarrow> string \<Rightarrow> string \<Rightarrow> bool" where
  "pattern_matches gl pattern addr =
     (case parse_cidr pattern of
        Some inet \<Rightarrow> parse_ip (target_host addr) \<noteq> None \<and> cidr1 inet (target_host addr)
      | None \<Rightarrow>
          if (CHR ''*'' \<in> set pattern \<or> CHR ''?'' \<in> set pattern) \<and> gl pattern \<noteq> None
          then wildcard1 gl pattern addr
          else case IPRange_Parse pattern of
                 Some r \<Rightarrow> range1 r addr
               | None \<Rightarrow> addr1 pattern addr)"

definition lists_match :: "(string \<Rightarrow> glob option) \<Rightarrow> pattern_lists \<Rightarrow> string \<Rightarrow> bool" where
  "lists_match gl l addr \<longleftrightarrow>
     (\<exists>r \<in> set (pl_ipRanges l). range1 r addr) \<or> (\<exists>a \<in> set (pl_addrs l). addr1 a addr) \<or>
     (parse_ip (target_host addr) \<noteq> None \<and> (\<exists>n \<in> set (pl_inets l). cidr1 n (target_host addr))) \<or>
     (\<exists>w \<in> set (pl_wildcards l). wildcard1 gl w addr)"

lemma lists_match_classify1:
  "lists_match gl (classify1 gl p l) addr \<longleftrightarrow> pattern_matches gl p addr \<or> lists_match gl l addr"
  by (cases "parse_cidr p"; cases "IPRange_Parse p")
     (auto simp: lists_match_def classify1_def pattern_matches_def)

lemma lists_match_fold:
  "lists_match gl (fold (classify1 gl) ps l) addr \<longleftrightarrow>
   (\<exists>p \<in> set ps. pattern_matches gl p addr) \<or> lists_match gl l addr"
  by (induction ps arbitrary: l) (auto simp: lists_match_classify1)

lemma matchAny_classify:
  "matchAny (Some (classifyPatterns gl ps)) addr \<longleftrightarrow> (\<exists>p \<in> set ps. pattern_matches gl p addr)"
proof -
  let ?l = "fold (classify1 gl) ps
              \<lparr> pl_addrs = [], pl_inets = [], pl_wildcards = [], pl_ipRanges = [] \<rparr>"
  have "matchAny (Some (classifyPatterns gl ps)) addr \<longleftrightarrow> lists_match gl ?l addr"
    by (simp add: matchAny_def classifyPatterns_def Let_def lists_match_def
        target_host_def range_matcher.Match_build addr_matcher.Match_build
        cidr_matcher.Match_build wildcard_matcher.Match_build)
  then show ?thesis by (simp add: lists_match_fold) (simp add: lists_match_def)
qed

section \<open>Lemmas on the group\<close>

lemma whitelist_loop_spec:
  "whitelist_loop bs has =
     (has \<or> (\<exists>b \<in> set bs. fst b), \<forall>b \<in> set bs. fst b \<longrightarrow> snd b)"
  by (induction bs has rule: whitelist_loop.induct) auto

lemma blacklist_loop_spec:
  "blacklist_loop bs = decisionBypass \<longleftrightarrow> (\<exists>b \<in> set bs. \<not> fst b \<and> snd b)"
  by (induction bs rule: blacklist_loop.induct) auto

section \<open>Properties\<close>


definition example_loaders :: loaders where
  "example_loaders =
     \<lparr> fileLoader = Some \<lparr> ld_List = Some [''10.0.0.0/8 # office'', ''# none''], ld_Load = None \<rparr>,
       redisLoader = None,
       httpLoader = Some \<lparr> ld_List = None, ld_Load = Some ''.example.org:80-443'' \<rparr> \<rparr>"

definition example_opts :: "bool \<Rightarrow> bypass_options" where
  "example_opts wl =
     \<lparr> bo_whitelist = wl, bo_network = ''tcp'', bo_matchers = [''192.168.1.1-192.168.1.9''],
       bo_file = True, bo_redis = False, bo_http = True, bo_period = 0 \<rparr>"


text \<open>
  (C2) A group bypasses an address exactly if it has a whitelist member and all whitelist members
  bypass it, or some blacklist member does.
\<close>

theorem bypass_group_decision:
  "bypass_Contains (BypassGroup bs) network addr \<longleftrightarrow>
     ((\<exists>b \<in> set bs. IsWhitelist b) \<and>
      (\<forall>b \<in> set bs. IsWhitelist b \<longrightarrow> bypass_Contains b network addr)) \<or>
     (\<exists>b \<in> set bs. \<not> IsWhitelist b \<and> bypass_Contains b network addr)"
  by (auto simp: bypassGroup_evaluate_def whitelist_loop_spec blacklist_loop_spec)

theorem bypass_group_decision_witness:
  "bypass_Contains (BypassGroup [ExtBypass True (\<lambda>n a. True),
      BypassGroup [ExtBypass False (\<lambda>n a. False)]]) ''tcp'' ''a:1''"
  by (subst bypass_group_decision) simp

end
