(* ===== verification/Admission.thy ===== *)
theory Admission
  imports Matcher Loader
begin

text \<open>
  The package \<open>x/admission\<close>: whether a client address may use a service. A local controller has
  a matcher for single addresses and one for networks, rebuilt at each reload; a group
  admits what all its members admit. The answers of the loaders and of the resolver of host names
  (\<open>net.ResolveIPAddr\<close>, the argument \<open>resolve\<close>) at a reload are arguments.
\<close>

section \<open>State\<close>

record admission_options =
  ao_whitelist :: bool
  ao_matchers :: "string list"
  ao_period :: int

text \<open>The matchers of a new controller are \<open>NopMatcher\<close>, here \<^term>\<open>None\<close>.\<close>

record localAdmission =
  la_ipMatcher :: "ipMatcher option"
  la_cidrMatcher :: "cidrMatcher option"
  la_options :: admission_options

definition NewAdmission :: "admission_options \<Rightarrow> localAdmission" where
  "NewAdmission opts = \<lparr> la_ipMatcher = None, la_cidrMatcher = None, la_options = opts \<rparr>"

section \<open>Loading\<close>

definition admission_parseLine :: "string \<Rightarrow> string" where
  "admission_parseLine s =
     trim_space (case index_byte s (CHR ''#'') of None \<Rightarrow> s | Some n \<Rightarrow> take n s)"

definition admission_parsePatterns :: "string option \<Rightarrow> string list" where
  "admission_parsePatterns r =
     (case r of
        None \<Rightarrow> []
      | Some s \<Rightarrow> filter (\<lambda>line. line \<noteq> []) (map admission_parseLine (scan_lines s)))"

definition admission_load :: "loaders \<Rightarrow> string list" where
  "admission_load ls =
     (case fileLoader ls of
        None \<Rightarrow> []
      | Some l \<Rightarrow> (case ld_List l of
                     Some list \<Rightarrow> filter (\<lambda>line. line \<noteq> []) (map admission_parseLine list)
                   | None \<Rightarrow> admission_parsePatterns (ld_Load l))) @
     (case redisLoader ls of
        None \<Rightarrow> []
      | Some l \<Rightarrow> (case ld_List l of
                     Some list \<Rightarrow> list
                   | None \<Rightarrow> admission_parsePatterns (ld_Load l))) @
     (case httpLoader ls of
        None \<Rightarrow> []
      | Some l \<Rightarrow> admission_parsePatterns (ld_Load l))"

fun admission_classify ::
  "(string \<Rightarrow> ip option) \<Rightarrow> string list \<Rightarrow> ip list \<times> ipnet list \<Rightarrow> ip list \<times> ipnet list" where
  "admission_classify resolve [] (ips, inets) = (ips, inets)"
| "admission_classify resolve (pattern # rest) (ips, inets) =
     (case parse_ip pattern of
        Some i \<Rightarrow> admission_classify resolve rest (ips @ [i], inets)
      | None \<Rightarrow>
          (case parse_cidr pattern of
             Some inet \<Rightarrow> admission_classify resolve rest (ips, inets @ [inet])
           | None \<Rightarrow>
               (case resolve pattern of
                  Some i \<Rightarrow> admission_classify resolve rest (ips @ [i], inets)
                | None \<Rightarrow> admission_classify resolve rest (ips, inets))))"

definition admission_reload ::
  "(string \<Rightarrow> ip option) \<Rightarrow> loaders \<Rightarrow> localAdmission \<Rightarrow> localAdmission" where
  "admission_reload resolve ls p =
     (let patterns = ao_matchers (la_options p) @ admission_load ls;
          (ips, inets) = admission_classify resolve patterns ([], [])
      in p\<lparr> la_ipMatcher := IPMatcher ips, la_cidrMatcher := CIDRMatcher inets \<rparr>)"

definition admission_periodReload ::
  "((string \<Rightarrow> ip option) \<times> loaders) \<Rightarrow> ((string \<Rightarrow> ip option) \<times> loaders) list \<Rightarrow>
   localAdmission \<Rightarrow> localAdmission" where
  "admission_periodReload first ticks p =
     (let p1 = admission_reload (fst first) (snd first) p in
      if ao_period (la_options p) \<le> 0 then p1
      else fold (\<lambda>(resolve, ls). admission_reload resolve ls) ticks p1)"

section \<open>The decision\<close>

definition admission_matched :: "localAdmission \<Rightarrow> string \<Rightarrow> bool" where
  "admission_matched p addr \<longleftrightarrow>
     ipMatcher_Match (la_ipMatcher p) addr \<or> cidrMatcher_Match (la_cidrMatcher p) addr"

definition localAdmission_Admit :: "localAdmission option \<Rightarrow> string \<Rightarrow> bool" where
  "localAdmission_Admit p addr =
     (case p of
        None \<Rightarrow> True
      | Some p \<Rightarrow>
          if addr = [] then True
          else let h = fst (split_host_port_raw addr);
                   a = (if h \<noteq> [] then h else addr);
                   m = admission_matched p a;
                   wl = ao_whitelist (la_options p)
               in (\<not> wl \<and> \<not> m) \<or> (wl \<and> m))"

text \<open>The implementations of the interface; an external one (a plugin) is given by its method.\<close>

datatype admission =
    LocalAdmission localAdmission
  | AdmissionGroup "admission option list"
  | ExtAdmission "string \<Rightarrow> string \<Rightarrow> bool"

text \<open>A nil member of a group is skipped.\<close>

fun Admit :: "admission \<Rightarrow> string \<Rightarrow> string \<Rightarrow> bool" where
  "Admit (LocalAdmission p) network addr = localAdmission_Admit (Some p) addr"
| "Admit (AdmissionGroup as) network addr =
     list_all (\<lambda>a. case a of None \<Rightarrow> True | Some a \<Rightarrow> Admit a network addr) as"
| "Admit (ExtAdmission f) network addr = f network addr"

section \<open>What a pattern matches\<close>

definition admission_matches :: "(string \<Rightarrow> ip option) \<Rightarrow> string \<Rightarrow> string \<Rightarrow> bool" where
  "admission_matches resolve pattern host =
     (case parse_ip pattern of
        Some i \<Rightarrow> ip1 i host
      | None \<Rightarrow>
          (case parse_cidr pattern of
             Some inet \<Rightarrow> cidr1 inet host
           | None \<Rightarrow>
               (case resolve pattern of Some i \<Rightarrow> ip1 i host | None \<Rightarrow> False)))"

lemma admission_classify_matches:
  assumes "admission_classify resolve ps (ips, inets) = (ips', inets')"
  shows "(\<exists>i \<in> set ips'. ip1 i host) \<or> (\<exists>n \<in> set inets'. cidr1 n host) \<longleftrightarrow>
         (\<exists>p \<in> set ps. admission_matches resolve p host) \<or>
         (\<exists>i \<in> set ips. ip1 i host) \<or> (\<exists>n \<in> set inets. cidr1 n host)"
  using assms
proof (induction ps arbitrary: ips inets)
  case (Cons p ps)
  consider (ip) i where "parse_ip p = Some i"
    | (cidr) n where "parse_ip p = None" "parse_cidr p = Some n"
    | (dns) i where "parse_ip p = None" "parse_cidr p = None" "resolve p = Some i"
    | (none) "parse_ip p = None" "parse_cidr p = None" "resolve p = None"
    by (cases "parse_ip p"; cases "parse_cidr p"; cases "resolve p") auto
  then show ?case
  proof cases
    case ip
    with Cons.prems Cons.IH [of "ips @ [i]" inets] show ?thesis
      by (auto simp: admission_matches_def [of _ p])
  next
    case cidr
    with Cons.prems Cons.IH [of ips "inets @ [n]"] show ?thesis
      by (auto simp: admission_matches_def [of _ p])
  next
    case dns
    with Cons.prems Cons.IH [of "ips @ [i]" inets] show ?thesis
      by (auto simp: admission_matches_def [of _ p])
  next
    case none
    with Cons.prems Cons.IH [of ips inets] show ?thesis
      by (auto simp: admission_matches_def [of _ p])
  qed
qed simp

definition client_host :: "string \<Rightarrow> string" where
  "client_host addr =
     (let h = fst (split_host_port_raw addr) in if h \<noteq> [] then h else addr)"

lemma admission_matched_reload:
  "admission_matched (admission_reload resolve ls p) host \<longleftrightarrow>
   (\<exists>q \<in> set (ao_matchers (la_options p) @ admission_load ls). admission_matches resolve q host)"
proof -
  obtain ips inets where
    c: "admission_classify resolve (ao_matchers (la_options p) @ admission_load ls) ([], []) = (ips, inets)"
    by fastforce
  then show ?thesis
    using admission_classify_matches [OF c, of host]
    by (simp add: admission_reload_def admission_matched_def
        ip_matcher.Match_build cidr_matcher.Match_build)
qed

lemma admission_reload_options [simp]: "la_options (admission_reload resolve ls p) = la_options p"
  by (simp add: admission_reload_def Let_def split: prod.splits)

section \<open>Properties\<close>

text \<open>
  (C3) The decision of a local controller after a reload, whatever its matchers were before: it
  admits an address exactly if some pattern matches its host part (whitelist) or none does
  (blacklist). An address with a port is judged by its host, and an IPv4 address in its mapped form
  as the IPv4 address.
\<close>

theorem admission_decision:
  assumes "addr \<noteq> []"
  shows "localAdmission_Admit (Some (admission_reload resolve ls p)) addr \<longleftrightarrow>
         (ao_whitelist (la_options p) =
            (\<exists>q \<in> set (ao_matchers (la_options p) @ admission_load ls).
               admission_matches resolve q (client_host addr)))"
  using assms
  by (auto simp: localAdmission_Admit_def client_host_def Let_def admission_matched_reload)

theorem admission_decision_witness:
  "localAdmission_Admit (Some (admission_reload (\<lambda>h. None)
      \<lparr> fileLoader = None, redisLoader = None,
        httpLoader = Some \<lparr> ld_List = None, ld_Load = Some ''10.0.0.0/8'' \<rparr> \<rparr>
      (NewAdmission \<lparr> ao_whitelist = True, ao_matchers = [''127.0.0.1''], ao_period = 0 \<rparr>)))
     ''[::ffff:10.2.3.4]:5000''"
  by (subst admission_decision; code_simp)

end
