(* ===== verification/Registry.thy ===== *)
theory Registry
  imports Bypass Admission
begin

text \<open>
  The package \<open>x/registry\<close>: named objects that components look up at run time. The generic registry
  is a concurrent map; the typed registries of admissions and bypasses hand out wrappers, which look
  the name up again at every call, so that an object replaced later is seen.

  The operations of \<open>sync.Map\<close> are atomic. \<open>Unregister\<close> is a load, a close and a delete; the
  operation as a whole is modelled for calls that do not overlap. Closing an object is recorded
  in the state.
\<close>

section \<open>The generic registry\<close>

record 'v registry =
  reg_m :: "(string, 'v) gomap"
  reg_closed :: "'v list"  \<comment> \<open>the objects closed so far\<close>

datatype reg_error = ErrDup

definition reg_Register :: "string \<Rightarrow> 'v \<Rightarrow> 'v registry \<Rightarrow> reg_error option \<times> 'v registry" where
  "reg_Register name v r =
     (if name = [] then (None, r)
      else case map_of (reg_m r) name of
             Some x \<Rightarrow> (Some ErrDup, r)
           | None \<Rightarrow> (None, r\<lparr> reg_m := AList.update name v (reg_m r) \<rparr>))"

text \<open>The argument tells whether an object implements \<open>io.Closer\<close>.\<close>

definition reg_Unregister :: "('v \<Rightarrow> bool) \<Rightarrow> string \<Rightarrow> 'v registry \<Rightarrow> 'v registry" where
  "reg_Unregister closer name r =
     (case map_of (reg_m r) name of
        None \<Rightarrow> r
      | Some v \<Rightarrow>
          let r1 = (if closer v then r\<lparr> reg_closed := reg_closed r @ [v] \<rparr> else r)
          in r1\<lparr> reg_m := AList.delete name (reg_m r1) \<rparr>)"

definition reg_IsRegistered :: "string \<Rightarrow> 'v registry \<Rightarrow> bool" where
  "reg_IsRegistered name r \<longleftrightarrow> map_of (reg_m r) name \<noteq> None"

definition reg_Get :: "string \<Rightarrow> 'v registry \<Rightarrow> 'v option" where
  "reg_Get name r = (if name = [] then None else map_of (reg_m r) name)"

definition reg_GetAll :: "'v registry \<Rightarrow> (string, 'v) gomap" where
  "reg_GetAll r = fold (\<lambda>(k, v) m. AList.update k v m) (reg_m r) []"

definition empty_registry :: "'v registry" where
  "empty_registry = \<lparr> reg_m = [], reg_closed = [] \<rparr>"

section \<open>The wrappers\<close>

text \<open>A wrapper is the name; the empty name gives nil.\<close>

definition admissionRegistry_Get :: "string \<Rightarrow> string option" where
  "admissionRegistry_Get name = (if name \<noteq> [] then Some name else None)"

definition admissionWrapper_Admit :: "admission registry \<Rightarrow> string \<Rightarrow> string \<Rightarrow> string \<Rightarrow> bool" where
  "admissionWrapper_Admit r name network addr =
     (case reg_Get name r of None \<Rightarrow> False | Some p \<Rightarrow> Admit p network addr)"

definition bypassRegistry_Get :: "string \<Rightarrow> string option" where
  "bypassRegistry_Get name = (if name \<noteq> [] then Some name else None)"

definition bypassWrapper_Contains :: "bypass registry \<Rightarrow> string \<Rightarrow> string \<Rightarrow> string \<Rightarrow> bool" where
  "bypassWrapper_Contains r name network addr =
     (case reg_Get name r of None \<Rightarrow> False | Some bp \<Rightarrow> bypass_Contains bp network addr)"

definition bypassWrapper_IsWhitelist :: "bypass registry \<Rightarrow> string \<Rightarrow> bool" where
  "bypassWrapper_IsWhitelist r name =
     (case reg_Get name r of None \<Rightarrow> False | Some bp \<Rightarrow> IsWhitelist bp)"

section \<open>The contract of a registry\<close>

locale name_table =
  fixes register :: "string \<Rightarrow> 'v \<Rightarrow> 'r \<Rightarrow> reg_error option \<times> 'r"
    and unregister :: "string \<Rightarrow> 'r \<Rightarrow> 'r"
    and get :: "string \<Rightarrow> 'r \<Rightarrow> 'v option"
  assumes get_register:
      "n \<noteq> [] \<Longrightarrow> get n r = None \<Longrightarrow>
       register n v r = (None, snd (register n v r)) \<and>
       get k (snd (register n v r)) = (if k = n then Some v else get k r)"
    and register_dup: "n \<noteq> [] \<Longrightarrow> get n r \<noteq> None \<Longrightarrow> register n v r = (Some ErrDup, r)"
    and get_unregister: "get k (unregister n r) = (if k = n then None else get k r)"
begin

text \<open>Replacing an object, as a reload of the configuration does.\<close>

definition replace :: "string \<Rightarrow> 'v \<Rightarrow> 'r \<Rightarrow> reg_error option \<times> 'r" where
  "replace n v r = register n v (unregister n r)"

lemma replace_get:
  assumes "n \<noteq> []"
  shows "fst (replace n v r) = None" and "get k (snd (replace n v r)) = (if k = n then Some v else get k r)"
proof -
  have "get n (unregister n r) = None" by (simp add: get_unregister)
  from get_register [OF assms this, of v]
  show "fst (replace n v r) = None" "get k (snd (replace n v r)) = (if k = n then Some v else get k r)"
    by (metis replace_def fst_conv, simp add: replace_def get_unregister)
qed

lemma register_frame: "k \<noteq> n \<Longrightarrow> n \<noteq> [] \<Longrightarrow> get k (snd (register n v r)) = get k r"
  using get_register [of n r v k] register_dup [of n r v] by (cases "get n r") auto

end

text \<open>The keys of the map stay distinct, and the empty name is never a key.\<close>

definition reg_wf :: "'v registry \<Rightarrow> bool" where
  "reg_wf r \<longleftrightarrow> distinct (map fst (reg_m r)) \<and> [] \<notin> fst ` set (reg_m r)"

lemma reg_wf_empty [simp]: "reg_wf empty_registry"
  by (simp add: reg_wf_def empty_registry_def)

lemma reg_wf_Register: "reg_wf r \<Longrightarrow> reg_wf (snd (reg_Register n v r))"
  by (auto simp: reg_wf_def reg_Register_def distinct_update split: option.splits
      dest: map_of_SomeD simp flip: dom_map_of_conv_image_fst simp add: update_conv')

lemma reg_wf_Unregister: "reg_wf r \<Longrightarrow> reg_wf (reg_Unregister c n r)"
  by (auto simp: reg_wf_def reg_Unregister_def Let_def distinct_delete split: option.splits
      simp flip: dom_map_of_conv_image_fst simp add: delete_conv')

interpretation registry_table: name_table reg_Register "reg_Unregister closer" reg_Get for closer
proof unfold_locales
  fix n k :: string and r :: "'a registry" and v :: 'a
  show "n \<noteq> [] \<Longrightarrow> reg_Get n r = None \<Longrightarrow>
        reg_Register n v r = (None, snd (reg_Register n v r)) \<and>
        reg_Get k (snd (reg_Register n v r)) = (if k = n then Some v else reg_Get k r)"
    by (auto simp: reg_Get_def reg_Register_def update_conv')
  show "n \<noteq> [] \<Longrightarrow> reg_Get n r \<noteq> None \<Longrightarrow> reg_Register n v r = (Some ErrDup, r)"
    by (auto simp: reg_Get_def reg_Register_def)
  show "reg_Get k (reg_Unregister closer n r) = (if k = n then None else reg_Get k r)"
    by (auto simp: reg_Get_def reg_Unregister_def Let_def delete_conv' split: option.splits)
qed

section \<open>Properties\<close>

text \<open>
  (C16) A bypass wrapper taken from the registry follows replacements: after the object of a name
  is unregistered and another one registered, the wrapper of that name answers as the new one,
  wrappers of other names answer as before, and the old object has been closed once if it can be.
\<close>

theorem bypass_wrapper_follows_replacement:
  assumes "n \<noteq> []" and "reg_Get n r = Some old"
  shows "let r' = snd (reg_Register n new (reg_Unregister closer n r)) in
         bypassWrapper_Contains r' n network addr = bypass_Contains new network addr \<and>
         (\<forall>k. k \<noteq> n \<longrightarrow> bypassWrapper_Contains r' k network addr = bypassWrapper_Contains r k network addr) \<and>
         reg_closed r' = reg_closed r @ (if closer old then [old] else [])"
proof -
  have replaced: "reg_Get k (snd (reg_Register n new (reg_Unregister closer n r))) =
      (if k = n then Some new else reg_Get k r)" for k
    by (rule registry_table.replace_get(2) [OF assms(1), unfolded registry_table.replace_def])
  have "reg_closed (snd (reg_Register n new (reg_Unregister closer n r))) =
        reg_closed r @ (if closer old then [old] else [])"
    using assms by (auto simp: reg_Get_def reg_Register_def reg_Unregister_def Let_def delete_conv'
        split: option.splits)
  with replaced show ?thesis
    by (simp add: Let_def bypassWrapper_Contains_def)
qed

theorem bypass_wrapper_follows_replacement_witness:
  "bypassWrapper_Contains
     (snd (reg_Register ''b'' (ExtBypass False (\<lambda>n a. True))
        (reg_Unregister (\<lambda>v. True) ''b''
          (snd (reg_Register ''b'' (ExtBypass False (\<lambda>n a. False)) empty_registry))))) ''b'' ''tcp'' ''x:1''"
proof -
  let ?old = "ExtBypass False (\<lambda>n a. False)"
  let ?r = "snd (reg_Register ''b'' ?old empty_registry)"
  have "reg_Get ''b'' ?r = Some ?old" by (simp add: reg_Get_def reg_Register_def empty_registry_def)
  from bypass_wrapper_follows_replacement [OF _ this, of "ExtBypass False (\<lambda>n a. True)" "\<lambda>v. True" "''tcp''" "''x:1''"]
  show ?thesis by (simp add: Let_def)
qed

end
