(* ===== verification/Rules.thy ===== *)
theory Rules
  imports Complex_Main Registry
begin

text \<open>
  The packages \<open>x/routing/rules\<close> and \<open>x/routing\<close>: boolean expressions over matchers of a request.
  A rule string is parsed by the package \<open>vulcand/predicate\<close>, which calls back the functions below;
  its result, the expression, is the argument of the model. The tree of the rule is negated by De
  Morgan's laws while it is built, checked, and turned into a tree of match functions.

  Arguments of the model, collected in the record \<open>routing_env\<close>: the compiler of regular expressions
  and the parser of floating point numbers of Go's library, JSON queries (\<open>tidwall/gjson\<close>), and the
  registries at the time of the match.
\<close>

section \<open>Trees of rules\<close>

datatype Tree =
  Tree (tr_Matcher: string) (tr_Not: bool) (tr_Value: "string list")
       (RuleLeft: "Tree option") (RuleRight: "Tree option")

text \<open>The expression that the parser of rules has recognised.\<close>

datatype expr =
    Call string "string list"
  | And expr expr
  | Or expr expr
  | Neg expr

text \<open>The names under which a matcher can be called, with the function \<open>cases.Title\<close> of
  \<open>golang.org/x/text\<close> as the argument \<open>title\<close>: for each name the matcher that it calls.\<close>

definition parserFuncs :: "(string \<Rightarrow> string) \<Rightarrow> string list \<Rightarrow> (string, string) gomap" where
  "parserFuncs title matchers =
     fold (\<lambda>m fs. AList.update (title (to_lower m)) m (AList.update (to_upper m) m
             (AList.update (to_lower m) m (AList.update m m fs)))) matchers []"

definition leafFunc :: "string \<Rightarrow> string list \<Rightarrow> Tree" where
  "leafFunc matcherName val = Tree matcherName False val None None"

definition andFunc :: "Tree \<Rightarrow> Tree \<Rightarrow> Tree" where
  "andFunc left right = Tree ''and'' False [] (Some left) (Some right)"

definition orFunc :: "Tree \<Rightarrow> Tree \<Rightarrow> Tree" where
  "orFunc left right = Tree ''or'' False [] (Some left) (Some right)"

text \<open>\<open>invert\<close> reads the matcher of a child, which panics on a nil child.\<close>

fun invert :: "Tree \<Rightarrow> Tree outcome" where
  "invert (Tree m n v l r) =
     (if m = ''or'' \<or> m = ''and'' then
        (case l of
           None \<Rightarrow> Panic
         | Some l' \<Rightarrow> bind_outcome (invert l') (\<lambda>il.
             (case r of
                None \<Rightarrow> Panic
              | Some r' \<Rightarrow> bind_outcome (invert r') (\<lambda>ir.
                  Done (Tree (if m = ''or'' then ''and'' else ''or'') n v (Some il) (Some ir))))))
      else Done (Tree m (\<not> n) v l r))"

definition notFunc :: "Tree \<Rightarrow> Tree outcome" where
  "notFunc t = invert t"

fun buildTree :: "expr \<Rightarrow> Tree outcome" where
  "buildTree (Call m v) = Done (leafFunc m v)"
| "buildTree (And a b) = bind_outcome (buildTree a) (\<lambda>l. bind_outcome (buildTree b) (\<lambda>r. Done (andFunc l r)))"
| "buildTree (Or a b) = bind_outcome (buildTree a) (\<lambda>l. bind_outcome (buildTree b) (\<lambda>r. Done (orFunc l r)))"
| "buildTree (Neg a) = bind_outcome (buildTree a) notFunc"

fun ParseMatchers :: "string list \<Rightarrow> Tree \<Rightarrow> string list outcome" where
  "ParseMatchers ms (Tree m n v l r) =
     (if m = ''and'' \<or> m = ''or'' then
        (case l of
           None \<Rightarrow> Panic
         | Some l' \<Rightarrow> bind_outcome (ParseMatchers ms l') (\<lambda>a.
             (case r of
                None \<Rightarrow> Panic
              | Some r' \<Rightarrow> bind_outcome (ParseMatchers ms r') (\<lambda>b. Done (a @ b)))))
      else if m \<in> set ms then Done (map to_lower v)
      else Done [])"

text \<open>The error values, in the order of the checks.\<close>

datatype rule_error =
    NoArgs | EmptyArgs | ParamCount | BadClientIP | NonASCII | BadRegexp | NoSlash
  | UnknownOperator | BadCompareValue | ParseFailed

definition CheckRule :: "Tree \<Rightarrow> rule_error option" where
  "CheckRule rule =
     (if length (tr_Value rule) = 0 then Some NoArgs
      else if list_ex (\<lambda>v. length v = 0) (tr_Value rule) then Some EmptyArgs
      else None)"

section \<open>Requests and the environment\<close>

record request =
  rq_ClientIP :: "ip option"
  rq_Host :: string
  rq_Protocol :: string
  rq_Network :: string
  rq_Method :: string
  rq_Path :: string
  rq_Query :: "(string, string list) gomap option"
  rq_Header :: "(string, string list) gomap option"
  rq_Body :: string

text \<open>A \<open>float64\<close>, its finite values exactly.\<close>

datatype float64 = NaN | NegInf | Fin rat | PosInf

fun float_less :: "float64 \<Rightarrow> float64 \<Rightarrow> bool" where
  "float_less NegInf (Fin q) = True"
| "float_less NegInf PosInf = True"
| "float_less (Fin p) (Fin q) = (p < q)"
| "float_less (Fin p) PosInf = True"
| "float_less _ _ = False"

definition float_eq :: "float64 \<Rightarrow> float64 \<Rightarrow> bool" where
  "float_eq a b \<longleftrightarrow> a \<noteq> NaN \<and> a = b"

record routing_env =
  env_regexp :: "string \<Rightarrow> (string \<Rightarrow> bool) option"
  env_ParseFloat :: "string \<Rightarrow> float64 option"
  env_gjson :: "string \<Rightarrow> string \<Rightarrow> string"
  env_admissions :: "admission registry"
  env_bypasses :: "bypass registry"

text \<open>A match function may panic.\<close>

type_synonym matcherFunc = "request \<Rightarrow> bool outcome"

section \<open>Helpers of the matchers\<close>

definition IsASCII :: "string \<Rightarrow> bool" where
  "IsASCII s = list_all (\<lambda>c. char_code c < 128) s"

definition parseHost :: "string \<Rightarrow> string" where
  "parseHost addr =
     (if CHR '':'' \<notin> set addr then addr
      else case split_host_port addr of
             Some (host, port) \<Rightarrow> host
           | None \<Rightarrow>
               if hd addr = CHR ''['' \<and> last addr = CHR '']'' then butlast (tl addr) else addr)"

definition compareOp :: "float64 \<Rightarrow> float64 \<Rightarrow> string \<Rightarrow> bool" where
  "compareOp f compVal op =
     (if op = ''gt'' then float_less compVal f
      else if op = ''ge'' then float_less compVal f \<or> float_eq f compVal
      else if op = ''lt'' then float_less f compVal
      else if op = ''le'' then float_less f compVal \<or> float_eq f compVal
      else if op = ''eq'' then float_eq f compVal
      else if op = ''ne'' then \<not> float_eq f compVal
      else False)"

text \<open>The operator and value, the empty operator for fewer than three arguments, or an error.\<close>

definition parseCompareParams ::
  "routing_env \<Rightarrow> string list \<Rightarrow> rule_error + (string \<times> float64)" where
  "parseCompareParams env args =
     (if length args < 3 then Inr ([], Fin 0)
      else let op = args ! 1 in
        if op \<notin> {''gt'', ''ge'', ''lt'', ''le'', ''eq'', ''ne''} then Inl UnknownOperator
        else case env_ParseFloat env (args ! 2) of
               None \<Rightarrow> Inl BadCompareValue
             | Some v \<Rightarrow> Inr (op, v))"

text \<open>\<open>http.CanonicalHeaderKey\<close>.\<close>

definition header_byte :: "char \<Rightarrow> bool" where
  "header_byte c \<longleftrightarrow>
     is_digit c \<or> (65 \<le> char_code c \<and> char_code c \<le> 90) \<or> (97 \<le> char_code c \<and> char_code c \<le> 122) \<or>
     c \<in> set ''!#$%&*+-.^_|~'' \<or> char_code c = 39 \<or> char_code c = 96"

fun canonical_loop :: "bool \<Rightarrow> string \<Rightarrow> string" where
  "canonical_loop upper [] = []"
| "canonical_loop upper (c # cs) =
     (if upper then upper_char c else lower_char c) # canonical_loop (c = CHR ''-'') cs"

definition CanonicalHeaderKey :: "string \<Rightarrow> string" where
  "CanonicalHeaderKey s = (if list_all header_byte s then canonical_loop True s else s)"

section \<open>The matchers\<close>

text \<open>Each builds the match function of its arguments, or fails. The number of arguments has been
  checked before.\<close>

definition clientIP :: "string list \<Rightarrow> rule_error + matcherFunc" where
  "clientIP args =
     (case parse_ip (args ! 0) of
        Some i \<Rightarrow> Inr (\<lambda>req. case rq_ClientIP req of None \<Rightarrow> Done False | Some c \<Rightarrow> Done (i = c))
      | None \<Rightarrow>
          (case parse_cidr (args ! 0) of
             None \<Rightarrow> Inl BadClientIP
           | Some n \<Rightarrow> Inr (\<lambda>req. case rq_ClientIP req of
                                    None \<Rightarrow> Done False | Some c \<Rightarrow> Done (ipnet_contains n c))))"

definition proto :: "string list \<Rightarrow> rule_error + matcherFunc" where
  "proto args = (let p = to_lower (args ! 0) in Inr (\<lambda>req. Done (p = rq_Protocol req)))"

definition network :: "string list \<Rightarrow> rule_error + matcherFunc" where
  "network args = (let n = to_lower (args ! 0) in Inr (\<lambda>req. Done (has_prefix (rq_Network req) n)))"

definition method_matcher :: "string list \<Rightarrow> rule_error + matcherFunc" where
  "method_matcher args = (let m = to_upper (args ! 0) in Inr (\<lambda>req. Done (m = rq_Method req)))"

definition host_pattern :: "string \<Rightarrow> string" where
  "host_pattern h0 =
     (let h = to_lower (trim_space h0) in
      if has_prefix h ''*'' then
        (let h' = tl h in if \<not> has_prefix h' ''.'' then CHR ''.'' # h' else h')
      else h)"

text \<open>The access to the first byte of the pattern panics if it is empty.\<close>

definition host :: "string list \<Rightarrow> rule_error + matcherFunc" where
  "host args =
     (if \<not> IsASCII (args ! 0) then Inl NonASCII
      else let h = host_pattern (args ! 0) in
        Inr (\<lambda>req.
          let reqHost = to_lower (trim_space (parseHost (rq_Host req))) in
          if length reqHost = 0 then Done False
          else if reqHost = h then Done True
          else if h = [] then Panic
          else Done (hd h = CHR ''.'' \<and> has_suffix reqHost h)))"

definition hostRegexp :: "routing_env \<Rightarrow> string list \<Rightarrow> rule_error + matcherFunc" where
  "hostRegexp env args =
     (if \<not> IsASCII (args ! 0) then Inl NonASCII
      else case env_regexp env (args ! 0) of
             None \<Rightarrow> Inl BadRegexp
           | Some re \<Rightarrow> Inr (\<lambda>req. Done (re (to_lower (trim_space (parseHost (rq_Host req)))))))"

definition path :: "string list \<Rightarrow> rule_error + matcherFunc" where
  "path args =
     (if \<not> has_prefix (args ! 0) ''/'' then Inl NoSlash
      else Inr (\<lambda>req. Done (rq_Path req = args ! 0)))"

definition pathRegexp :: "routing_env \<Rightarrow> string list \<Rightarrow> rule_error + matcherFunc" where
  "pathRegexp env args =
     (case env_regexp env (args ! 0) of
        None \<Rightarrow> Inl BadRegexp
      | Some re \<Rightarrow> Inr (\<lambda>req. Done (re (rq_Path req))))"

definition pathPrefix :: "string list \<Rightarrow> rule_error + matcherFunc" where
  "pathPrefix args =
     (if \<not> has_prefix (args ! 0) ''/'' then Inl NoSlash
      else Inr (\<lambda>req. Done (has_prefix (rq_Path req) (args ! 0))))"

text \<open>The values under a key of a header or query map, none if the key is absent.\<close>

definition map_values :: "(string, string list) gomap \<Rightarrow> string \<Rightarrow> string list" where
  "map_values m key = (case map_of m key of None \<Rightarrow> [] | Some vs \<Rightarrow> vs)"

definition any_compares :: "routing_env \<Rightarrow> string \<Rightarrow> float64 \<Rightarrow> string list \<Rightarrow> bool" where
  "any_compares env op compVal vs =
     list_ex (\<lambda>v. case env_ParseFloat env v of None \<Rightarrow> False | Some f \<Rightarrow> compareOp f compVal op) vs"

definition header :: "routing_env \<Rightarrow> string list \<Rightarrow> rule_error + matcherFunc" where
  "header env args =
     (let key = CanonicalHeaderKey (args ! 0) in
      case parseCompareParams env args of
        Inl e \<Rightarrow> Inl e
      | Inr (op, compVal) \<Rightarrow>
          if op \<noteq> [] then
            Inr (\<lambda>req. case rq_Header req of
                         None \<Rightarrow> Done False
                       | Some m \<Rightarrow> Done (any_compares env op compVal (map_values m key)))
          else
            Inr (\<lambda>req. case rq_Header req of
                         None \<Rightarrow> Done False
                       | Some m \<Rightarrow>
                           (case map_of m key of
                              None \<Rightarrow> Done False
                            | Some vs \<Rightarrow>
                                if \<not> (length args \<ge> 2) then Done True
                                else Done (args ! 1 \<in> set vs))))"

definition headerRegexp :: "routing_env \<Rightarrow> string list \<Rightarrow> rule_error + matcherFunc" where
  "headerRegexp env args =
     (if length args = 1 then header env args
      else let key = CanonicalHeaderKey (args ! 0) in
        case env_regexp env (args ! 1) of
          None \<Rightarrow> Inl BadRegexp
        | Some re \<Rightarrow>
            Inr (\<lambda>req. case rq_Header req of
                         None \<Rightarrow> Done False
                       | Some m \<Rightarrow> Done (list_ex re (map_values m key))))"

definition query :: "routing_env \<Rightarrow> string list \<Rightarrow> rule_error + matcherFunc" where
  "query env args =
     (let key = args ! 0 in
      case parseCompareParams env args of
        Inl e \<Rightarrow> Inl e
      | Inr (op, compVal) \<Rightarrow>
          if op \<noteq> [] then
            Inr (\<lambda>req. case rq_Query req of
                         None \<Rightarrow> Done False
                       | Some m \<Rightarrow> Done (any_compares env op compVal (map_values m key)))
          else
            Inr (\<lambda>req. case rq_Query req of
                         None \<Rightarrow> Done False
                       | Some m \<Rightarrow>
                           (case map_of m key of
                              None \<Rightarrow> Done False
                            | Some vs \<Rightarrow>
                                if \<not> (length args \<ge> 2) then Done True
                                else Done (args ! 1 \<in> set vs))))"

definition queryRegexp :: "routing_env \<Rightarrow> string list \<Rightarrow> rule_error + matcherFunc" where
  "queryRegexp env args =
     (if length args = 1 then query env args
      else case env_regexp env (args ! 1) of
          None \<Rightarrow> Inl BadRegexp
        | Some re \<Rightarrow>
            Inr (\<lambda>req. case rq_Query req of
                         None \<Rightarrow> Done False
                       | Some m \<Rightarrow>
                           (case map_of m (args ! 0) of
                              None \<Rightarrow> Done False
                            | Some vs \<Rightarrow> Done (list_ex re vs))))"

definition bodyRegexp :: "routing_env \<Rightarrow> string list \<Rightarrow> rule_error + matcherFunc" where
  "bodyRegexp env args =
     (case env_regexp env (args ! 0) of
        None \<Rightarrow> Inl BadRegexp
      | Some re \<Rightarrow>
          Inr (\<lambda>req. if length (rq_Body req) = 0 then Done False else Done (re (rq_Body req))))"

definition bodyJSON :: "routing_env \<Rightarrow> string list \<Rightarrow> rule_error + matcherFunc" where
  "bodyJSON env args =
     (let jpath = args ! 0 in
      case parseCompareParams env args of
        Inl e \<Rightarrow> Inl e
      | Inr (op, compVal) \<Rightarrow>
          if op \<noteq> [] then
            Inr (\<lambda>req.
              if length (rq_Body req) = 0 then Done False
              else case env_ParseFloat env (env_gjson env (rq_Body req) jpath) of
                     None \<Rightarrow> Done False
                   | Some f \<Rightarrow> Done (compareOp f compVal op))
          else
            (case env_regexp env (args ! 1) of
               None \<Rightarrow> Inl BadRegexp
             | Some re \<Rightarrow>
                 Inr (\<lambda>req. if length (rq_Body req) = 0 then Done False
                            else Done (re (env_gjson env (rq_Body req) jpath)))))"

definition admission_matcher :: "routing_env \<Rightarrow> string list \<Rightarrow> rule_error + matcherFunc" where
  "admission_matcher env args =
     Inr (\<lambda>req. case rq_ClientIP req of
                  None \<Rightarrow> Done False
                | Some c \<Rightarrow>
                    (case admissionRegistry_Get (args ! 0) of
                       None \<Rightarrow> Done False
                     | Some w \<Rightarrow> Done (admissionWrapper_Admit (env_admissions env) w ''ip'' (ip_string c))))"

definition bypass_matcher :: "routing_env \<Rightarrow> string list \<Rightarrow> rule_error + matcherFunc" where
  "bypass_matcher env args =
     Inr (\<lambda>req. case bypassRegistry_Get (args ! 0) of
                  None \<Rightarrow> Done False
                | Some w \<Rightarrow>
                    Done (\<not> bypassWrapper_Contains (env_bypasses env) w ''tcp'' (rq_Host req)))"

definition expectNParameters ::
  "(string list \<Rightarrow> rule_error + matcherFunc) \<Rightarrow> nat list \<Rightarrow> string list \<Rightarrow> rule_error + matcherFunc" where
  "expectNParameters fn n s = (if length s \<notin> set n then Inl ParamCount else fn s)"

definition httpFuncs ::
  "routing_env \<Rightarrow> (string \<times> (string list \<Rightarrow> rule_error + matcherFunc)) list" where
  "httpFuncs env =
     [(''ClientIP'', expectNParameters clientIP [1]),
      (''Network'', expectNParameters network [1]),
      (''Proto'', expectNParameters proto [1]),
      (''Host'', expectNParameters host [1]),
      (''HostRegexp'', expectNParameters (hostRegexp env) [1]),
      (''Method'', expectNParameters method_matcher [1]),
      (''Path'', expectNParameters path [1]),
      (''PathRegexp'', expectNParameters (pathRegexp env) [1]),
      (''PathPrefix'', expectNParameters pathPrefix [1]),
      (''Header'', expectNParameters (header env) [1, 2, 3]),
      (''HeaderRegexp'', expectNParameters (headerRegexp env) [1, 2]),
      (''Query'', expectNParameters (query env) [1, 2, 3]),
      (''QueryRegexp'', expectNParameters (queryRegexp env) [1, 2]),
      (''BodyJSON'', expectNParameters (bodyJSON env) [2, 3]),
      (''BodyRegexp'', expectNParameters (bodyRegexp env) [1]),
      (''Bypass'', expectNParameters (bypass_matcher env) [1]),
      (''Admission'', expectNParameters (admission_matcher env) [1])]"

section \<open>Trees of matchers\<close>

datatype matchersTree =
  matchersTree (mt_matcher: "matcherFunc option") (mt_operator: string)
    (mt_left: "matchersTree option") (mt_right: "matchersTree option")

fun tree_match :: "matchersTree option \<Rightarrow> matcherFunc" where
  "tree_match None req = Done False"
| "tree_match (Some (matchersTree f op l r)) req =
     (case f of
        Some f' \<Rightarrow> f' req
      | None \<Rightarrow>
          if op = ''or'' then
            bind_outcome (tree_match l req) (\<lambda>b. if b then Done True else tree_match r req)
          else if op = ''and'' then
            bind_outcome (tree_match l req) (\<lambda>b. if b then tree_match r req else Done False)
          else Done False)"

text \<open>The negation of a match function: it panics where the function does.\<close>

definition negate :: "matcherFunc \<Rightarrow> matcherFunc" where
  "negate f req = bind_outcome (f req) (\<lambda>b. Done (\<not> b))"

text \<open>An unknown matcher name is a nil function, whose call panics, as does the access to a nil rule.\<close>

fun addRule :: "routing_env \<Rightarrow> Tree \<Rightarrow> (rule_error + matchersTree) outcome" where
  "addRule env (Tree m n v l r) =
     (if m = ''and'' \<or> m = ''or'' then
        (case l of
           None \<Rightarrow> Panic
         | Some l' \<Rightarrow> bind_outcome (addRule env l') (\<lambda>ml.
             (case ml of
                Inl e \<Rightarrow> Done (Inl e)
              | Inr ml' \<Rightarrow>
                  (case r of
                     None \<Rightarrow> Panic
                   | Some r' \<Rightarrow> bind_outcome (addRule env r') (\<lambda>mr.
                       (case mr of
                          Inl e \<Rightarrow> Done (Inl e)
                        | Inr mr' \<Rightarrow> Done (Inr (matchersTree None m (Some ml') (Some mr')))))))))
      else
        (case CheckRule (Tree m n v l r) of
           Some e \<Rightarrow> Done (Inl e)
         | None \<Rightarrow>
             (case map_of (httpFuncs env) m of
                None \<Rightarrow> Panic
              | Some fn \<Rightarrow>
                  (case fn v of
                     Inl e \<Rightarrow> Done (Inl e)
                   | Inr f \<Rightarrow>
                       Done (Inr (matchersTree (Some (if n then negate f else f)) [] None None))))))"

text \<open>The parser of expressions is the argument \<open>parse\<close>.\<close>

definition NewMatcher ::
  "(string \<Rightarrow> expr option) \<Rightarrow> routing_env \<Rightarrow> string \<Rightarrow> (rule_error + matchersTree) outcome" where
  "NewMatcher parse env rule =
     (case parse rule of
        None \<Rightarrow> Done (Inl ParseFailed)
      | Some e \<Rightarrow> bind_outcome (buildTree e) (addRule env))"

definition matcher_Match :: "matchersTree option \<Rightarrow> matcherFunc" where
  "matcher_Match m req = (case m of None \<Rightarrow> Done False | Some t \<Rightarrow> tree_match (Some t) req)"

section \<open>The meaning of a rule\<close>

text \<open>The match function of a call, if its arguments are accepted.\<close>

definition leaf_fun :: "routing_env \<Rightarrow> string \<Rightarrow> string list \<Rightarrow> matcherFunc option" where
  "leaf_fun env m v =
     (if v = [] \<or> [] \<in> set v then None
      else case map_of (httpFuncs env) m of
             None \<Rightarrow> None
           | Some fn \<Rightarrow> (case fn v of Inl e \<Rightarrow> None | Inr f \<Rightarrow> Some f))"

definition leaf_eval :: "routing_env \<Rightarrow> string \<Rightarrow> string list \<Rightarrow> matcherFunc" where
  "leaf_eval env m v req = (case leaf_fun env m v of None \<Rightarrow> Done False | Some f \<Rightarrow> f req)"

text \<open>The boolean value of an expression, evaluated from the left with short cuts.\<close>

fun expr_eval :: "routing_env \<Rightarrow> expr \<Rightarrow> matcherFunc" where
  "expr_eval env (Call m v) req = leaf_eval env m v req"
| "expr_eval env (And a b) req =
     bind_outcome (expr_eval env a req) (\<lambda>x. if x then expr_eval env b req else Done False)"
| "expr_eval env (Or a b) req =
     bind_outcome (expr_eval env a req) (\<lambda>x. if x then Done True else expr_eval env b req)"
| "expr_eval env (Neg a) req = bind_outcome (expr_eval env a req) (\<lambda>x. Done (\<not> x))"

fun expr_calls :: "expr \<Rightarrow> (string \<times> string list) set" where
  "expr_calls (Call m v) = {(m, v)}"
| "expr_calls (And a b) = expr_calls a \<union> expr_calls b"
| "expr_calls (Or a b) = expr_calls a \<union> expr_calls b"
| "expr_calls (Neg a) = expr_calls a"

text \<open>The same for trees, with the negations at the leaves.\<close>

fun tree_wf :: "Tree \<Rightarrow> bool" where
  "tree_wf (Tree m n v l r) =
     (m = ''and'' \<or> m = ''or'' \<longrightarrow>
        (case l of None \<Rightarrow> False | Some l' \<Rightarrow> tree_wf l') \<and> (case r of None \<Rightarrow> False | Some r' \<Rightarrow> tree_wf r'))"

fun tree_eval :: "routing_env \<Rightarrow> Tree \<Rightarrow> matcherFunc" where
  "tree_eval env (Tree m n v l r) req =
     (if m = ''and'' then
        bind_outcome (case l of None \<Rightarrow> Panic | Some l' \<Rightarrow> tree_eval env l' req)
          (\<lambda>x. if x then (case r of None \<Rightarrow> Panic | Some r' \<Rightarrow> tree_eval env r' req) else Done False)
      else if m = ''or'' then
        bind_outcome (case l of None \<Rightarrow> Panic | Some l' \<Rightarrow> tree_eval env l' req)
          (\<lambda>x. if x then Done True else (case r of None \<Rightarrow> Panic | Some r' \<Rightarrow> tree_eval env r' req))
      else bind_outcome (leaf_eval env m v req) (\<lambda>x. Done (if n then \<not> x else x)))"

fun tree_calls :: "Tree \<Rightarrow> (string \<times> string list) set" where
  "tree_calls (Tree m n v l r) =
     (if m = ''and'' \<or> m = ''or'' then
        (case l of None \<Rightarrow> {} | Some l' \<Rightarrow> tree_calls l') \<union> (case r of None \<Rightarrow> {} | Some r' \<Rightarrow> tree_calls r')
      else {(m, v)})"

lemma bind_Done [simp]: "bind_outcome x Done = x"
  by (cases x) auto

lemma bind_assoc [simp]:
  "bind_outcome (bind_outcome x f) g = bind_outcome x (\<lambda>y. bind_outcome (f y) g)"
  by (cases x) auto

lemma bind_cong_fun: "(\<And>y. f y = g y) \<Longrightarrow> bind_outcome x f = bind_outcome x g"
  by (cases x) auto

lemma invert_spec:
  "tree_wf t \<Longrightarrow>
   \<exists>t'. invert t = Done t' \<and> tree_wf t' \<and> tree_calls t' = tree_calls t \<and>
        (\<forall>req. tree_eval env t' req = bind_outcome (tree_eval env t req) (\<lambda>x. Done (\<not> x)))"
proof (induction t rule: invert.induct)
  case (1 m n v l r)
  show ?case
  proof (cases "m = ''or'' \<or> m = ''and''")
    case False
    then show ?thesis by (cases n) (auto intro!: bind_cong_fun)
  next
    case True
    then obtain l' r' where lr: "l = Some l'" "r = Some r'" "tree_wf l'" "tree_wf r'"
      using "1.prems" by (auto split: option.splits)
    obtain il where il: "invert l' = Done il" "tree_wf il" "tree_calls il = tree_calls l'"
      "\<And>req. tree_eval env il req = bind_outcome (tree_eval env l' req) (\<lambda>x. Done (\<not> x))"
      using "1.IH"(1) [OF True lr(1, 3)] by blast
    obtain ir where ir: "invert r' = Done ir" "tree_wf ir" "tree_calls ir = tree_calls r'"
      "\<And>req. tree_eval env ir req = bind_outcome (tree_eval env r' req) (\<lambda>x. Done (\<not> x))"
      using "1.IH"(2) [OF True lr(1, 2, 4)] by blast
    from True lr il ir show ?thesis by (auto intro!: bind_cong_fun)
  qed
qed

lemma buildTree_spec:
  assumes "\<forall>(m, v) \<in> expr_calls e. m \<noteq> ''and'' \<and> m \<noteq> ''or''"
  shows "\<exists>t. buildTree e = Done t \<and> tree_wf t \<and> tree_calls t = expr_calls e \<and>
             (\<forall>req. tree_eval env t req = expr_eval env e req)"
  using assms
proof (induction e)
  case (Call m v)
  then show ?case by (auto simp: leafFunc_def)
next
  case (And a b)
  then obtain s t where "buildTree a = Done s" "tree_wf s" "tree_calls s = expr_calls a"
    "\<And>req. tree_eval env s req = expr_eval env a req"
    "buildTree b = Done t" "tree_wf t" "tree_calls t = expr_calls b"
    "\<And>req. tree_eval env t req = expr_eval env b req"
    by (auto simp: ball_Un)
  then show ?case by (auto simp: andFunc_def intro!: bind_cong_fun)
next
  case (Or a b)
  then obtain s t where "buildTree a = Done s" "tree_wf s" "tree_calls s = expr_calls a"
    "\<And>req. tree_eval env s req = expr_eval env a req"
    "buildTree b = Done t" "tree_wf t" "tree_calls t = expr_calls b"
    "\<And>req. tree_eval env t req = expr_eval env b req"
    by (auto simp: ball_Un)
  then show ?case by (auto simp: orFunc_def intro!: bind_cong_fun)
next
  case (Neg a)
  then obtain t where t: "buildTree a = Done t" "tree_wf t" "tree_calls t = expr_calls a"
    "\<And>req. tree_eval env t req = expr_eval env a req" by auto
  with invert_spec [OF t(2), of env] show ?case by (auto simp: notFunc_def)
qed

text \<open>What adding a rule gives: the first failing leaf's error, or a tree with the same value.\<close>

lemma leaf_fun_addRule:
  assumes "m \<noteq> ''and''" "m \<noteq> ''or''" "map_of (httpFuncs env) m \<noteq> None"
  shows "case leaf_fun env m v of
           None \<Rightarrow> \<exists>e. addRule env (Tree m n v l r) = Done (Inl e)
         | Some f \<Rightarrow> addRule env (Tree m n v l r) =
             Done (Inr (matchersTree (Some (if n then negate f else f)) [] None None))"
proof -
  from assms(3) obtain fn where fn: "map_of (httpFuncs env) m = Some fn" by auto
  show ?thesis
    using assms(1, 2) fn
    by (cases "v = [] \<or> [] \<in> set v"; cases "fn v")
       (auto simp: leaf_fun_def CheckRule_def list_ex_iff)
qed

lemma addRule_spec:
  assumes "tree_wf t" and "\<forall>(m, v) \<in> tree_calls t. map_of (httpFuncs env) m \<noteq> None"
  shows "if \<exists>(m, v) \<in> tree_calls t. leaf_fun env m v = None
         then \<exists>e. addRule env t = Done (Inl e)
         else \<exists>mt. addRule env t = Done (Inr mt) \<and> (\<forall>req. tree_match (Some mt) req = tree_eval env t req)"
  using assms
proof (induction t rule: addRule.induct)
  case (1 env m n v l r)
  show ?case
  proof (cases "m = ''and'' \<or> m = ''or''")
    case False
    then have k: "map_of (httpFuncs env) m \<noteq> None" using "1.prems"(2) by simp
    show ?thesis
    proof (cases "leaf_fun env m v")
      case None
      with leaf_fun_addRule [OF _ _ k, where v = v and n = n and l = l and r = r] False show ?thesis by simp
    next
      case (Some f)
      with leaf_fun_addRule [OF _ _ k, where v = v and n = n and l = l and r = r] False
      have "addRule env (Tree m n v l r) = Done (Inr (matchersTree (Some (if n then negate f else f)) [] None None))"
        by simp
      with Some False show ?thesis by (auto simp: leaf_eval_def negate_def)
    qed
  next
    case True
    then obtain l' r' where lr: "l = Some l'" "r = Some r'" "tree_wf l'" "tree_wf r'"
      using "1.prems"(1) by (auto split: option.splits)
    have kl: "\<forall>(m, v) \<in> tree_calls l'. map_of (httpFuncs env) m \<noteq> None"
      and kr: "\<forall>(m, v) \<in> tree_calls r'. map_of (httpFuncs env) m \<noteq> None"
      using "1.prems"(2) True lr by auto
    note IHl = "1.IH"(1) [OF True lr(1, 3) kl]
    show ?thesis
    proof (cases "\<exists>(m, v) \<in> tree_calls l'. leaf_fun env m v = None")
      case bad: True
      with IHl obtain e where "addRule env l' = Done (Inl e)" by auto
      with True lr bad show ?thesis by auto
    next
      case good: False
      with IHl obtain ml where ml: "addRule env l' = Done (Inr ml)"
        "\<And>req. tree_match (Some ml) req = tree_eval env l' req" by (auto split: if_splits)
      note IHr = "1.IH"(2) [OF True lr(1) lr(2, 4) kr]
      show ?thesis
      proof (cases "\<exists>(m, v) \<in> tree_calls r'. leaf_fun env m v = None")
        case bad: True
        with IHr obtain e where "addRule env r' = Done (Inl e)" by auto
        with True lr bad ml show ?thesis by auto
      next
        case good': False
        with IHr obtain mr where mr: "addRule env r' = Done (Inr mr)"
          "\<And>req. tree_match (Some mr) req = tree_eval env r' req" by (auto split: if_splits)
        have "\<not> (\<exists>(m, v) \<in> tree_calls (Tree m n v l r). leaf_fun env m v = None)"
          using True lr good good' by auto
        moreover have "addRule env (Tree m n v l r) = Done (Inr (matchersTree None m (Some ml) (Some mr)))"
          using True lr ml mr by auto
        moreover have "tree_match (Some (matchersTree None m (Some ml) (Some mr))) req =
            tree_eval env (Tree m n v l r) req" for req
          using True lr ml(2) mr(2) by (elim disjE) (simp_all cong: if_cong)
        ultimately show ?thesis by auto
      qed
    qed
  qed
qed

section \<open>Properties\<close>

definition known_calls :: "routing_env \<Rightarrow> expr \<Rightarrow> bool" where
  "known_calls env e \<longleftrightarrow> (\<forall>(m, v) \<in> expr_calls e. map_of (httpFuncs env) m \<noteq> None)"

lemma httpFuncs_no_operator: "map_of (httpFuncs env) m \<noteq> None \<Longrightarrow> m \<noteq> ''and'' \<and> m \<noteq> ''or''"
  by (auto simp: httpFuncs_def split: if_splits)

text \<open>
  (C8) A rule has its boolean meaning. If the parser accepts a rule and all its matchers are known,
  then the construction of the matcher does not panic; it fails exactly if the arguments of some
  call are not accepted; otherwise the matcher answers every request as the expression says, with
  negation, conjunction and disjunction evaluated from the left with short cuts, although
  negations have been moved to the leaves of the tree.
\<close>

theorem rule_meaning:
  assumes "parse rule = Some e" and "known_calls env e"
  shows "if \<exists>(m, v) \<in> expr_calls e. leaf_fun env m v = None
         then \<exists>err. NewMatcher parse env rule = Done (Inl err)
         else \<exists>t. NewMatcher parse env rule = Done (Inr t) \<and>
                  (\<forall>req. matcher_Match (Some t) req = expr_eval env e req)"
proof -
  from assms(2) have "\<forall>(m, v) \<in> expr_calls e. m \<noteq> ''and'' \<and> m \<noteq> ''or''"
    using httpFuncs_no_operator by (fastforce simp: known_calls_def)
  from buildTree_spec [OF this, of env] obtain t where t:
    "buildTree e = Done t" "tree_wf t" "tree_calls t = expr_calls e"
    "\<And>req. tree_eval env t req = expr_eval env e req" by blast
  from assms(2) t(3) have "\<forall>(m, v) \<in> tree_calls t. map_of (httpFuncs env) m \<noteq> None"
    by (simp add: known_calls_def)
  from addRule_spec [OF t(2) this] t assms(1) show ?thesis
    by (cases "\<exists>(m, v) \<in> expr_calls e. leaf_fun env m v = None")
       (simp_all add: NewMatcher_def matcher_Match_def)
qed

definition example_env :: routing_env where
  "example_env =
     \<lparr> env_regexp = (\<lambda>p. None), env_ParseFloat = (\<lambda>s. None), env_gjson = (\<lambda>b p. []),
       env_admissions = empty_registry, env_bypasses = empty_registry \<rparr>"

definition example_request :: request where
  "example_request =
     \<lparr> rq_ClientIP = Some (map_v4 0x0a000001), rq_Host = ''www.Example.com:443'', rq_Protocol = ''tls'',
       rq_Network = ''tcp4'', rq_Method = ''GET'', rq_Path = ''/api/v1'', rq_Query = None,
       rq_Header = None, rq_Body = [] \<rparr>"

definition example_expr :: expr where
  "example_expr =
     Neg (Or (Neg (Call ''Host'' [''*.example.com''])) (Call ''ClientIP'' [''192.168.0.0/16'']))"

theorem rule_meaning_witness:
  "\<exists>t. NewMatcher (\<lambda>r. Some example_expr) example_env ''r'' = Done (Inr t) \<and>
       matcher_Match (Some t) example_request = Done True"
proof -
  have "known_calls example_env example_expr"
    by (simp add: known_calls_def example_expr_def httpFuncs_def)
  note meaning = rule_meaning [of "\<lambda>r. Some example_expr" "''r''", OF refl this]
  have ok: "\<not> (\<exists>(m, v) \<in> expr_calls example_expr. leaf_fun example_env m v = None)"
    by code_simp
  have "expr_eval example_env example_expr example_request = Done True" by code_simp
  with meaning show ?thesis unfolding if_not_P [OF ok] by auto
qed

text \<open>
  (C10) A host pattern that consists of spaces passes all checks of a rule, and the matcher then
  panics on every request with a host: the pattern is trimmed after the check for empty arguments,
  and its first byte is read.
\<close>

theorem blank_host_rule_panics:
  "\<exists>t. NewMatcher (\<lambda>r. Some (Call ''Host'' ['' ''])) env rule = Done (Inr t) \<and>
       (\<forall>req. trim_space (parseHost (rq_Host req)) \<noteq> [] \<longrightarrow> matcher_Match (Some t) req = Panic)"
proof -
  have "IsASCII '' ''" "host_pattern '' '' = []" by code_simp+
  then show ?thesis
    by (auto simp: NewMatcher_def leafFunc_def CheckRule_def httpFuncs_def expectNParameters_def
        host_def matcher_Match_def Let_def)
qed

theorem blank_host_rule_panics_witness:
  "\<exists>t. NewMatcher (\<lambda>r. Some (Call ''Host'' ['' ''])) example_env ''r'' = Done (Inr t) \<and>
       matcher_Match (Some t) example_request = Panic"
proof -
  have "trim_space (parseHost (rq_Host example_request)) \<noteq> []" by code_simp
  with blank_host_rule_panics [of example_env "''r''"] show ?thesis by auto
qed



end
