(* ===== verification/Metadata.thy ===== *)
theory Metadata
  imports Gost_Prelude
begin

text \<open>
  The packages \<open>x/metadata\<close> and \<open>x/metadata/util\<close>: a map with case-insensitive keys and its typed
  getters, and the functions of Go's \<open>strconv\<close> and \<open>time\<close> that they call.

  A value of the Go type \<open>any\<close> is a constructor per dynamic type that the getters distinguish. A
  floating point number is represented by its shortest decimal text, all that \<open>GetString\<close> reads of
  it; \<open>GetFloat\<close> is not modelled, nor are the getters of maps, which format values with \<^verbatim>\<open>%v\<close>.
\<close>

section \<open>Values\<close>

datatype mvalue =
    VNil
  | VBool bool
  | VInt int
  | VInt64 int
  | VUint int  \<comment> \<open>\<open>uint\<close> and \<open>uint64\<close>\<close>
  | VFloat string  \<comment> \<open>\<open>float32\<close> and \<open>float64\<close>\<close>
  | VString string
  | VStrings "string list"
  | VAnys "mvalue list"
  | VOther

type_synonym metadata = "(string, mvalue) gomap"

section \<open>The map\<close>

definition NewMetadata :: "(string \<times> mvalue) list \<Rightarrow> metadata" where
  "NewMetadata m = fold (\<lambda>(k, v) md. AList.update (to_lower k) v md) m []"

definition md_IsExists :: "metadata \<Rightarrow> string \<Rightarrow> bool" where
  "md_IsExists m key \<longleftrightarrow> map_of m (to_lower key) \<noteq> None"

definition md_Set :: "metadata \<Rightarrow> string \<Rightarrow> mvalue \<Rightarrow> metadata" where
  "md_Set m key v = AList.update (to_lower key) v m"

definition md_Get :: "metadata \<Rightarrow> string \<Rightarrow> mvalue" where
  "md_Get m key = (case map_of m (to_lower key) of None \<Rightarrow> VNil | Some v \<Rightarrow> v)"

section \<open>Parsing\<close>

text \<open>\<open>strconv.ParseBool\<close>; the value is false on an error.\<close>

definition parse_bool :: "string \<Rightarrow> bool" where
  "parse_bool s \<longleftrightarrow> s \<in> {''1'', ''t'', ''T'', ''true'', ''TRUE'', ''True''}"

text \<open>
  \<open>time.ParseDuration\<close>: a sign and a sequence of decimal numbers with a unit; \<^term>\<open>None\<close> is an
  error. The fraction of a number is taken exactly and cut to nanoseconds.
\<close>

definition second :: int where
  "second = 1000000000"

definition unit_map :: "string \<Rightarrow> int option" where
  "unit_map u = map_of
     [(''ns'', 1), (''us'', 1000), (map char_of [194, 181, 115 :: int], 1000),
      (map char_of [206, 188, 115 :: int], 1000), (''ms'', 1000000), (''s'', second),
      (''m'', 60 * second), (''h'', 3600 * second)] u"

definition is_num_char :: "char \<Rightarrow> bool" where
  "is_num_char c \<longleftrightarrow> c = CHR ''.'' \<or> is_digit c"

function duration_loop :: "int \<Rightarrow> string \<Rightarrow> int option" where
  "duration_loop d s =
     (if s = [] then Some d
      else if \<not> is_num_char (hd s) then None
      else
        let ds = takeWhile is_digit s; s1 = dropWhile is_digit s;
            dot = (s1 \<noteq> [] \<and> hd s1 = CHR ''.'');
            fs = (if dot then takeWhile is_digit (tl s1) else []);
            s2 = (if dot then dropWhile is_digit (tl s1) else s1);
            u = takeWhile (\<lambda>c. \<not> is_num_char c) s2;
            s3 = dropWhile (\<lambda>c. \<not> is_num_char c) s2;
            v = decimal ds
        in if v > 2 ^ 63 then None
           else if ds = [] \<and> fs = [] then None
           else if u = [] then None
           else case unit_map u of
             None \<Rightarrow> None
           | Some m \<Rightarrow>
               if v > 2 ^ 63 div m then None
               else let w = v * m + decimal fs * m div 10 ^ length fs in
                 if w > 2 ^ 63 \<or> d + w > 2 ^ 63 then None
                 else duration_loop (d + w) s3)"
  by pat_completeness auto
termination
proof (relation "measure (\<lambda>(d, s). length s)", goal_cases)
  case (2 d s ds s1 dot fs s2 u s3 v m w)
  have "length s1 \<le> length s" by (simp add: 2 length_dropWhile_le)
  moreover have "length s2 \<le> length s1"
    using length_dropWhile_le [of is_digit "tl s1"] by (auto simp: 2)
  moreover have "length s3 < length s2"
  proof -
    have "length s2 = length u + length s3"
      unfolding 2 by (metis length_append takeWhile_dropWhile_id)
    with 2 show ?thesis by simp
  qed
  ultimately show ?case by simp
qed simp

declare duration_loop.simps [simp del]

definition parse_duration :: "string \<Rightarrow> int option" where
  "parse_duration s0 =
     (let neg = (s0 \<noteq> [] \<and> hd s0 = CHR ''-'');
          s = (if s0 \<noteq> [] \<and> (hd s0 = CHR ''-'' \<or> hd s0 = CHR ''+'') then tl s0 else s0)
      in if s = ''0'' then Some 0
         else if s = [] then None
         else case duration_loop 0 s of
                None \<Rightarrow> None
              | Some d \<Rightarrow> if neg then Some (- d)
                          else if d > 2 ^ 63 - 1 then None else Some d)"

section \<open>The getters\<close>

text \<open>The value under the first of the keys that exists; a nil metadata is \<^term>\<open>None\<close>.\<close>

fun first_value :: "metadata \<Rightarrow> string list \<Rightarrow> mvalue option" where
  "first_value md [] = None"
| "first_value md (key # keys) =
     (if \<not> md_IsExists md key then first_value md keys else Some (md_Get md key))"

definition mdutil_IsExists :: "metadata option \<Rightarrow> string list \<Rightarrow> bool" where
  "mdutil_IsExists md keys =
     (case md of None \<Rightarrow> False | Some md \<Rightarrow> list_ex (md_IsExists md) keys)"

definition GetBool :: "metadata option \<Rightarrow> string list \<Rightarrow> bool" where
  "GetBool md keys =
     (case md of
        None \<Rightarrow> False
      | Some md \<Rightarrow>
          (case first_value md keys of
             Some (VBool b) \<Rightarrow> b
           | Some (VInt n) \<Rightarrow> n \<noteq> 0
           | Some (VString s) \<Rightarrow> parse_bool s
           | _ \<Rightarrow> False))"

definition GetInt :: "metadata option \<Rightarrow> string list \<Rightarrow> int" where
  "GetInt md keys =
     (case md of
        None \<Rightarrow> 0
      | Some md \<Rightarrow>
          (case first_value md keys of
             Some (VBool b) \<Rightarrow> (if b then 1 else 0)
           | Some (VInt n) \<Rightarrow> n
           | Some (VString s) \<Rightarrow> fst (atoi s)
           | _ \<Rightarrow> 0))"

definition GetDuration :: "metadata option \<Rightarrow> string list \<Rightarrow> int" where
  "GetDuration md keys =
     (case md of
        None \<Rightarrow> 0
      | Some md \<Rightarrow>
          (case first_value md keys of
             Some (VInt n) \<Rightarrow> wrap64 (n * second)
           | Some (VString s) \<Rightarrow>
               (let v = (case parse_duration s of None \<Rightarrow> 0 | Some d \<Rightarrow> d)
                in if v = 0 then wrap64 (fst (atoi s) * second) else v)
           | _ \<Rightarrow> 0))"

definition GetString :: "metadata option \<Rightarrow> string list \<Rightarrow> string" where
  "GetString md keys =
     (case md of
        None \<Rightarrow> []
      | Some md \<Rightarrow>
          (case first_value md keys of
             Some (VString s) \<Rightarrow> s
           | Some (VInt n) \<Rightarrow> itoa n
           | Some (VInt64 n) \<Rightarrow> itoa n
           | Some (VUint n) \<Rightarrow> itoa n
           | Some (VBool b) \<Rightarrow> (if b then ''true'' else ''false'')
           | Some (VFloat f) \<Rightarrow> f
           | _ \<Rightarrow> []))"

fun strings_of :: "mvalue list \<Rightarrow> string list" where
  "strings_of [] = []"
| "strings_of (v # vs) = (case v of VString s \<Rightarrow> s # strings_of vs | _ \<Rightarrow> strings_of vs)"

definition GetStrings :: "metadata option \<Rightarrow> string list \<Rightarrow> string list" where
  "GetStrings md keys =
     (case md of
        None \<Rightarrow> []
      | Some md \<Rightarrow>
          (case first_value md keys of
             Some (VStrings ss) \<Rightarrow> ss
           | Some (VAnys vs) \<Rightarrow> strings_of vs
           | _ \<Rightarrow> []))"

section \<open>Lemmas\<close>

lemma md_Get_Set [simp]:
  "md_Get (md_Set m k v) j = (if to_lower j = to_lower k then v else md_Get m j)"
  by (simp add: md_Get_def md_Set_def update_conv')

lemma md_IsExists_Set [simp]:
  "md_IsExists (md_Set m k v) j \<longleftrightarrow> to_lower j = to_lower k \<or> md_IsExists m j"
  by (simp add: md_IsExists_def md_Set_def update_conv')

lemma NewMetadata_fold: "NewMetadata m = fold (\<lambda>(k, v) md. md_Set md k v) m []"
  by (simp add: NewMetadata_def md_Set_def)

lemma first_value_spec:
  "first_value md keys = map_option (md_Get md) (find (md_IsExists md) keys)"
  by (induction keys) auto

lemma first_value_none_iff [simp]:
  "first_value md keys = None \<longleftrightarrow> (\<forall>k \<in> set keys. \<not> md_IsExists md k)"
  by (induction keys) auto

text \<open>Writing a number as text and reading it back as a number.\<close>

lemma GetInt_of_GetString:
  assumes "0 \<le> n" and "n \<le> max_int64"
  shows "GetInt (Some (md_Set m k (VString (GetString (Some (md_Set m' k (VInt n))) [k])))) [k] = n"
  using assms by (simp add: GetInt_def GetString_def atoi_itoa)

lemma GetInt_case: "to_lower k = to_lower k' \<Longrightarrow> GetInt md [k] = GetInt md [k']"
  by (simp add: GetInt_def md_IsExists_def md_Get_def split: option.splits)

end
