(* ===== verification/Selector.thy ===== *)
theory Selector
  imports Metadata
begin

text \<open>
  The package \<open>x/selector\<close>: strategies that pick one of several items (nodes of a hop, chains of a
  group), filters that drop items, and the selector that applies filters and then a strategy.

  The Go code is generic in the item type and asks an item at run time for its metadata, its failure
  marker and its probe result. Items are records with these three fields, \<^term>\<open>None\<close> meaning that
  the item does not have the interface or that its method returns nil; the code treats both alike.
  The clock and the random numbers are arguments.
\<close>

unbundle bit_operations_syntax

section \<open>Items\<close>

record marker =
  mk_Count :: int
  mk_Time :: int  \<comment> \<open>nanoseconds\<close>

record ProbeResult =
  prb_Success :: bool
  prb_Latency :: int

record item =
  it_Metadata :: "metadata option"
  it_Marker :: "marker option"
  it_ProbeResult :: "ProbeResult option"

definition DefaultFailTimeout :: int where
  "DefaultFailTimeout = 10 * second"

section \<open>Filters\<close>

definition effectiveFailSettings :: "'a item_scheme \<Rightarrow> int \<Rightarrow> int \<Rightarrow> int \<times> int" where
  "effectiveFailSettings v maxFails failTimeout =
     (let (mf, ft) =
        (case it_Metadata v of
           None \<Rightarrow> (maxFails, failTimeout)
         | Some md \<Rightarrow>
             (if md_IsExists md ''maxFails'' then GetInt (Some md) [''maxFails''] else maxFails,
              if md_IsExists md ''failTimeout'' then GetDuration (Some md) [''failTimeout''] else failTimeout))
      in (if mf \<le> 0 then 1 else mf, if ft \<le> 0 then DefaultFailTimeout else ft))"

definition IsFailed :: "int \<Rightarrow> 'a item_scheme \<Rightarrow> int \<Rightarrow> int \<Rightarrow> bool" where
  "IsFailed now v maxFails failTimeout =
     (let (mf, ft) = effectiveFailSettings v maxFails failTimeout in
      case it_Marker v of
        None \<Rightarrow> False
      | Some m \<Rightarrow> \<not> (mk_Count m < mf \<or> now - mk_Time m \<ge> ft))"

definition failFilter_Filter ::
  "int \<Rightarrow> int \<Rightarrow> int \<Rightarrow> 'a item_scheme list \<Rightarrow> 'a item_scheme list" where
  "failFilter_Filter now maxFails failTimeout vs =
     (if length vs \<le> 1 then vs else filter (\<lambda>v. \<not> IsFailed now v maxFails failTimeout) vs)"

fun backup_loop ::
  "'a item_scheme list \<Rightarrow> 'a item_scheme list \<Rightarrow> 'a item_scheme list \<Rightarrow>
   'a item_scheme list \<times> 'a item_scheme list" where
  "backup_loop l backups [] = (l, backups)"
| "backup_loop l backups (v # vs) =
     (if GetBool (it_Metadata v) [''backup''] then backup_loop l (backups @ [v]) vs
      else backup_loop (l @ [v]) backups vs)"

definition backupFilter_Filter :: "'a item_scheme list \<Rightarrow> 'a item_scheme list" where
  "backupFilter_Filter vs =
     (if length vs \<le> 1 then vs
      else let (l, backups) = backup_loop [] [] vs in if length l = 0 then backups else l)"

definition latencyFilter_Filter :: "int \<Rightarrow> 'a item_scheme list \<Rightarrow> 'a item_scheme list" where
  "latencyFilter_Filter maxLatency vs =
     (if length vs \<le> 1 \<or> maxLatency \<le> 0 then vs
      else filter (\<lambda>v. case it_ProbeResult v of
                         None \<Rightarrow> True
                       | Some r \<Rightarrow> \<not> (\<not> prb_Success r \<or> prb_Latency r > maxLatency)) vs)"

section \<open>Weighted random choice\<close>

record 'v RandomWeighted =
  rw_items :: "('v \<times> int) list"
  rw_sum :: int

definition rw_Reset :: "'v RandomWeighted \<Rightarrow> 'v RandomWeighted" where
  "rw_Reset rw = rw\<lparr> rw_items := [], rw_sum := 0 \<rparr>"

definition rw_Add :: "'v \<Rightarrow> int \<Rightarrow> 'v RandomWeighted \<Rightarrow> 'v RandomWeighted" where
  "rw_Add v weight rw =
     rw\<lparr> rw_items := rw_items rw @ [(v, weight)], rw_sum := wrap64 (rw_sum rw + weight) \<rparr>"

fun next_loop :: "int \<Rightarrow> ('v \<times> int) list \<Rightarrow> 'v \<Rightarrow> 'v" where
  "next_loop weight [] dflt = dflt"
| "next_loop weight ((v, w) # rest) dflt =
     (let weight' = weight - w in if weight' \<le> 0 then v else next_loop weight' rest dflt)"

text \<open>\<open>rand.Intn\<close>: a number from 0 to \<open>n - 1\<close>, drawn from the generator's raw output \<open>r\<close>, any integer.\<close>

definition Intn :: "int \<Rightarrow> int \<Rightarrow> int" where
  "Intn r n = r mod n"

definition rw_Next :: "int \<Rightarrow> 'v RandomWeighted \<Rightarrow> 'v option" where
  "rw_Next r rw =
     (if length (rw_items rw) = 0 then None
      else if rw_sum rw \<le> 0 then None
      else Some (next_loop (Intn r (rw_sum rw) + 1) (rw_items rw) (fst (last (rw_items rw)))))"

section \<open>Strategies\<close>

text \<open>The zero value of the item type is \<^term>\<open>None\<close>. The counter is a 64-bit word.\<close>

definition roundRobin_Apply :: "64 word \<Rightarrow> 'v list \<Rightarrow> 'v option \<times> 64 word" where
  "roundRobin_Apply counter vs =
     (if length vs = 0 then (None, counter)
      else let counter' = counter + 1; n = counter' - 1
           in (Some (vs ! unat (n mod of_nat (length vs))), counter'))"

definition random_weight :: "'a item_scheme \<Rightarrow> int" where
  "random_weight v = (let weight = GetInt (it_Metadata v) [''weight''] in if weight \<le> 0 then 1 else weight)"

definition random_Apply ::
  "int \<Rightarrow> 'a item_scheme RandomWeighted \<Rightarrow> 'a item_scheme list \<Rightarrow> 'a item_scheme option" where
  "random_Apply r rw vs =
     (if length vs = 0 then None
      else rw_Next r (fold (\<lambda>v. rw_Add v (random_weight v)) vs (rw_Reset rw)))"

definition fifo_Apply :: "'v list \<Rightarrow> 'v option" where
  "fifo_Apply vs = (if length vs = 0 then None else Some (vs ! 0))"

text \<open>\<open>crc32.ChecksumIEEE\<close>, bit by bit.\<close>

definition crc_step :: "32 word \<Rightarrow> 32 word" where
  "crc_step c = (if c AND 1 = 1 then drop_bit 1 c XOR 0xEDB88320 else drop_bit 1 c)"

definition crc_byte :: "32 word \<Rightarrow> char \<Rightarrow> 32 word" where
  "crc_byte c b = (crc_step ^^ 8) (c XOR of_int (char_code b))"

definition crc32_ieee :: "string \<Rightarrow> 32 word" where
  "crc32_ieee s = NOT (foldl crc_byte (NOT 0) s)"

text \<open>What the strategies read of the context: the client id and the hash source.\<close>

record select_ctx =
  sc_ClientID :: string
  sc_Hash :: "string option"

definition hash_Apply :: "int \<Rightarrow> select_ctx \<Rightarrow> 'v list \<Rightarrow> 'v option" where
  "hash_Apply r ctx vs =
     (if length vs = 0 then None
      else if sc_ClientID ctx \<noteq> [] then
        Some (vs ! nat (uint (crc32_ieee (sc_ClientID ctx)) mod int (length vs)))
      else case sc_Hash ctx of
             Some source \<Rightarrow> Some (vs ! nat (uint (crc32_ieee source) mod int (length vs)))
           | None \<Rightarrow> Some (vs ! nat (Intn r (int (length vs)))))"

text \<open>The loop over the items: the best latency and its index, the fallback index, the position.\<close>

fun lowest_loop ::
  "(int \<times> nat) option \<Rightarrow> nat option \<Rightarrow> nat \<Rightarrow> 'a item_scheme list \<Rightarrow> (int \<times> nat) option \<times> nat option" where
  "lowest_loop best fallback i [] = (best, fallback)"
| "lowest_loop best fallback i (v # vs) =
     (case it_ProbeResult v of
        None \<Rightarrow> lowest_loop best (if fallback = None then Some i else fallback) (Suc i) vs
      | Some r \<Rightarrow>
          if \<not> prb_Success r then
            lowest_loop best (if fallback = None then Some i else fallback) (Suc i) vs
          else if (case best of None \<Rightarrow> True | Some (l, k) \<Rightarrow> prb_Latency r < l) then
            lowest_loop (Some (prb_Latency r, i)) fallback (Suc i) vs
          else lowest_loop best fallback (Suc i) vs)"

definition lowestLatency_Apply :: "'a item_scheme list \<Rightarrow> 'a item_scheme option" where
  "lowestLatency_Apply vs =
     (if length vs = 0 then None
      else case lowest_loop None None 0 vs of
             (Some (l, i), fb) \<Rightarrow> Some (vs ! i)
           | (None, Some i) \<Rightarrow> Some (vs ! i)
           | (None, None) \<Rightarrow> Some (vs ! 0))"

section \<open>The selector\<close>

datatype filter =
    FailFilter int int
  | BackupFilter
  | LatencyFilter int

fun Filter :: "int \<Rightarrow> filter \<Rightarrow> 'a item_scheme list \<Rightarrow> 'a item_scheme list" where
  "Filter now (FailFilter mf ft) vs = failFilter_Filter now mf ft vs"
| "Filter now BackupFilter vs = backupFilter_Filter vs"
| "Filter now (LatencyFilter ml) vs = latencyFilter_Filter ml vs"

datatype strategy =
    RoundRobin "64 word"
  | Random
  | FIFO
  | Hash
  | LowestLatency

text \<open>The strategy's answer and its next state. The weighted strategy starts from a reset table,
  so its table is not part of the state.\<close>

fun Apply ::
  "int \<Rightarrow> select_ctx \<Rightarrow> strategy \<Rightarrow> 'a item_scheme list \<Rightarrow> 'a item_scheme option \<times> strategy" where
  "Apply r ctx (RoundRobin c) vs = (let (v, c') = roundRobin_Apply c vs in (v, RoundRobin c'))"
| "Apply r ctx Random vs = (random_Apply r \<lparr> rw_items = [], rw_sum = 0 \<rparr> vs, Random)"
| "Apply r ctx FIFO vs = (fifo_Apply vs, FIFO)"
| "Apply r ctx Hash vs = (hash_Apply r ctx vs, Hash)"
| "Apply r ctx LowestLatency vs = (lowestLatency_Apply vs, LowestLatency)"

record defaultSelector =
  ds_strategy :: strategy
  ds_filters :: "filter list"

definition apply_filters :: "int \<Rightarrow> filter list \<Rightarrow> 'a item_scheme list \<Rightarrow> 'a item_scheme list" where
  "apply_filters now fs vs = fold (Filter now) fs vs"

definition Select ::
  "int \<Rightarrow> select_ctx \<Rightarrow> int \<Rightarrow> 'a item_scheme list \<Rightarrow> defaultSelector \<Rightarrow>
   'a item_scheme option \<times> defaultSelector" where
  "Select r ctx now vs s =
     (let vs' = apply_filters now (ds_filters s) vs in
      if length vs' = 0 then (None, s)
      else let (v, st) = Apply r ctx (ds_strategy s) vs' in (v, s\<lparr> ds_strategy := st \<rparr>))"

section \<open>Parallel dialling\<close>

text \<open>
  The answer of one node: its connection, or an error; \<open>Dial\<close> receives one per node, in
  the order \<open>arrivals\<close> in which they reach the channel. The result is the connection kept (or the
  errors) and the connections closed. A transport returns a connection when it returns no error.
\<close>

datatype ('c, 'e) arrival = Connected nat 'c | DialFailed nat 'e

fun first_success :: "('c, 'e) arrival list \<Rightarrow> 'e list \<Rightarrow> (nat \<times> 'c) option \<times> 'e list \<times> ('c, 'e) arrival list" where
  "first_success [] errs = (None, errs, [])"
| "first_success (Connected n c # rest) errs = (Some (n, c), errs, rest)"
| "first_success (DialFailed n e # rest) errs = first_success rest (errs @ [e])"

fun drain :: "('c, 'e) arrival list \<Rightarrow> 'c list" where
  "drain [] = []"
| "drain (Connected n c # rest) = c # drain rest"
| "drain (DialFailed n e # rest) = drain rest"

definition parallel_Dial :: "('c, 'e) arrival list \<Rightarrow> ('e list + (nat \<times> 'c)) \<times> 'c list" where
  "parallel_Dial arrivals =
     (case first_success arrivals [] of
        (None, errs, rest) \<Rightarrow> (Inl errs, [])
      | (Some best, errs, rest) \<Rightarrow> (Inr best, drain rest))"

section \<open>The contracts of filters and strategies\<close>

text \<open>A filter keeps some of the items, in their order.\<close>

locale selector_filter =
  fixes filt :: "'v list \<Rightarrow> 'v list"
  assumes filt_subseq: "subseq (filt vs) vs"
begin

lemma filt_subset: "set (filt vs) \<subseteq> set vs"
  using filt_subseq [of vs] by (auto elim: list_emb_set)

lemma filt_Nil: "filt [] = []"
  using filt_subseq [of "[]"] by simp

end

text \<open>A strategy picks one of the items, if there is one.\<close>

locale selector_strategy =
  fixes app :: "'s \<Rightarrow> 'v list \<Rightarrow> 'v option \<times> 's"
  assumes app_member: "fst (app s vs) = Some v \<Longrightarrow> v \<in> set vs"
    and app_Nil: "fst (app s []) = None"
begin

lemma app_filtered:
  assumes "selector_filter f" and "fst (app s (f vs)) = Some v"
  shows "v \<in> set vs"
  using app_member [OF assms(2)] selector_filter.filt_subset [OF assms(1)] by blast

end

lemma subseq_backup_loop:
  "\<exists>xs ys. backup_loop l b vs = (l @ xs, b @ ys) \<and>
     xs = filter (\<lambda>v. \<not> GetBool (it_Metadata v) [''backup'']) vs \<and>
     ys = filter (\<lambda>v. GetBool (it_Metadata v) [''backup'']) vs"
  by (induction l b vs rule: backup_loop.induct) auto

lemma backup_loop_eq:
  "backup_loop [] [] vs =
     (filter (\<lambda>v. \<not> GetBool (it_Metadata v) [''backup'']) vs,
      filter (\<lambda>v. GetBool (it_Metadata v) [''backup'']) vs)"
  using subseq_backup_loop [of "[]" "[]" vs] by simp

interpretation fail_filter: selector_filter "failFilter_Filter now mf ft" for now mf ft
  by unfold_locales (simp add: failFilter_Filter_def)

interpretation backup_filter: selector_filter backupFilter_Filter
  by unfold_locales (simp add: backupFilter_Filter_def backup_loop_eq)

interpretation latency_filter: selector_filter "latencyFilter_Filter ml" for ml
  by unfold_locales (simp add: latencyFilter_Filter_def)

interpretation any_filter: selector_filter "Filter now f" for now f
  by unfold_locales
     (cases f; simp add: fail_filter.filt_subseq backup_filter.filt_subseq latency_filter.filt_subseq)

interpretation all_filters: selector_filter "apply_filters now fs" for now fs
proof unfold_locales
  show "subseq (apply_filters now fs vs) vs" for vs :: "'v item_scheme list"
    unfolding apply_filters_def
    by (induction fs arbitrary: vs)
       (auto intro: subseq_order.trans any_filter.filt_subseq)
qed

section \<open>Round robin\<close>

lemma roundRobin_index:
  assumes "vs \<noteq> []" and "length vs < 2 ^ 64"
  shows "roundRobin_Apply c vs = (Some (vs ! (unat c mod length vs)), c + 1)"
  using assms
  by (simp add: roundRobin_Apply_def Let_def unat_mod_distrib unsigned_of_nat take_bit_nat_eq_self)

text \<open>The answers of \<open>m\<close> calls in a row.\<close>

fun rr_calls :: "nat \<Rightarrow> 64 word \<Rightarrow> 'v list \<Rightarrow> 'v option list" where
  "rr_calls 0 c vs = []"
| "rr_calls (Suc m) c vs = (let (v, c') = roundRobin_Apply c vs in v # rr_calls m c' vs)"

lemma rr_calls_eq:
  assumes "vs \<noteq> []" and "length vs < 2 ^ 64" and "unat c + m \<le> 2 ^ 64"
  shows "rr_calls m c vs = map (\<lambda>i. Some (vs ! ((unat c + i) mod length vs))) [0..<m]"
  using assms(3)
proof (induction m arbitrary: c)
  case (Suc m)
  show ?case
  proof (cases m)
    case 0
    then show ?thesis by (simp add: roundRobin_index [OF assms(1, 2)])
  next
    case (Suc m')
    with Suc.prems have "unat (c + 1) = Suc (unat c)"
      by (subst unat_add_lem [THEN iffD1]) simp_all
    with Suc.IH [of "c + 1"] Suc.prems show ?thesis
      by (simp add: roundRobin_index [OF assms(1, 2)] upt_conv_Cons map_Suc_upt [symmetric]
          comp_def del: upt_Suc)
  qed
qed simp

lemma rotate_conv_map_nth:
  "rotate k vs = map (\<lambda>i. vs ! ((k + i) mod length vs)) [0..<length vs]"
  by (rule nth_equalityI) (auto simp: nth_rotate)

section \<open>Weighted random choice: lemmas\<close>

lemma fold_rw_Add_items:
  "rw_items (fold (\<lambda>v. rw_Add v (f v)) vs rw) = rw_items rw @ map (\<lambda>v. (v, f v)) vs"
  by (induction vs arbitrary: rw) (simp_all add: rw_Add_def)

lemma sum_list_pos_mono:
  fixes f :: "'v \<Rightarrow> int"
  shows "(\<And>v. v \<in> set vs \<Longrightarrow> 0 < f v) \<Longrightarrow> 0 \<le> (\<Sum>v\<leftarrow>vs. f v)"
  by (induction vs) (auto simp: add_nonneg_nonneg less_imp_le)

lemma fold_rw_Add_sum:
  assumes "\<And>v. v \<in> set vs \<Longrightarrow> 0 < f v" and "0 \<le> rw_sum rw"
    and "rw_sum rw + (\<Sum>v\<leftarrow>vs. f v) \<le> max_int64"
  shows "rw_sum (fold (\<lambda>v. rw_Add v (f v)) vs rw) = rw_sum rw + (\<Sum>v\<leftarrow>vs. f v)"
  using assms
proof (induction vs arbitrary: rw)
  case (Cons v vs)
  then have "0 \<le> (\<Sum>v\<leftarrow>vs. f v)" "0 < f v" by (simp_all add: sum_list_pos_mono)
  with Cons.prems(2, 3) have "min_int64 \<le> rw_sum rw + f v" "rw_sum rw + f v \<le> max_int64"
    by (simp_all add: min_int64_def)
  then have w: "wrap64 (rw_sum rw + f v) = rw_sum rw + f v" by (rule wrap64_id)
  show ?case
    using Cons.IH [of "rw_Add v (f v) rw"] Cons.prems \<open>0 < f v\<close>
    by (simp add: rw_Add_def w add.assoc)
qed simp

lemma next_loop_member:
  "next_loop w items d \<in> insert d (fst ` set items)"
  by (induction w items d rule: next_loop.induct) (auto simp: Let_def)

lemma next_loop_count:
  assumes "\<And>x w. (x, w) \<in> set items \<Longrightarrow> 0 < w"
  shows "card {r. 0 \<le> r \<and> r < sum_list (map snd items) \<and> next_loop (r + 1) items d = v} =
         nat (sum_list (map snd (filter (\<lambda>i. fst i = v) items)))" (is "card (?R items) = _")
  using assms
proof (induction items)
  case (Cons i rest)
  obtain x w where i: "i = (x, w)" by fastforce
  with Cons.prems [of x w] have w: "0 < w" by simp
  have pos: "0 \<le> sum_list (map snd rest)" "0 \<le> sum_list (map snd (filter (\<lambda>i. fst i = v) rest))"
    using Cons.prems by (auto intro!: sum_list_nonneg) (metis less_imp_le)+
  have split_r: "?R (i # rest) = {r. 0 \<le> r \<and> r < w \<and> x = v} \<union> (\<lambda>r. r + w) ` ?R rest" (is "_ = ?A \<union> ?B")
  proof (rule set_eqI)
    fix r
    show "r \<in> ?R (i # rest) \<longleftrightarrow> r \<in> ?A \<union> ?B"
    proof (cases "r < w")
      case True
      with w pos show ?thesis by (auto simp: i)
    next
      case False
      then have "r \<in> ?B \<longleftrightarrow> r - w \<in> ?R rest" by (auto intro!: image_eqI [of _ _ "r - w"])
      with False w show ?thesis by (auto simp: i algebra_simps)
    qed
  qed
  have "finite (?R rest)" by (rule finite_subset [of _ "{0..<sum_list (map snd rest)}"]) auto
  moreover have "?A \<inter> ?B = {}" by auto
  moreover have "finite ?A" by (rule finite_subset [of _ "{0..<w}"]) auto
  ultimately have "card (?R (i # rest)) = card ?A + card (?R rest)"
    unfolding split_r by (subst card_Un_disjoint) (auto simp: card_image)
  moreover have "card ?A = (if x = v then nat w else 0)"
  proof -
    have "?A = (if x = v then {0..<w} else {})" by auto
    then show ?thesis by simp
  qed
  ultimately show ?case
    using Cons pos w by (auto simp: i nat_add_distrib)
next
  case Nil
  have e: "?R [] = {}" by auto
  show ?case unfolding e by simp
qed

lemma random_weight_pos [simp]: "0 < random_weight v"
  by (simp add: random_weight_def Let_def)

lemma random_Apply_eq:
  assumes "vs \<noteq> []" and "(\<Sum>v\<leftarrow>vs. random_weight v) \<le> max_int64"
  shows "random_Apply r rw vs =
     Some (next_loop (Intn r (\<Sum>v\<leftarrow>vs. random_weight v) + 1) (map (\<lambda>v. (v, random_weight v)) vs) (last vs))"
proof -
  let ?rw = "fold (\<lambda>v. rw_Add v (random_weight v)) vs (rw_Reset rw)"
  have items: "rw_items ?rw = map (\<lambda>v. (v, random_weight v)) vs"
    by (simp add: fold_rw_Add_items rw_Reset_def)
  have sum: "rw_sum ?rw = (\<Sum>v\<leftarrow>vs. random_weight v)"
    using fold_rw_Add_sum [of vs random_weight "rw_Reset rw"] assms(2) by (simp add: rw_Reset_def)
  have "0 < (\<Sum>v\<leftarrow>vs. random_weight v)"
    using assms(1) sum_list_pos_mono [of "tl vs" random_weight] by (cases vs) (auto simp: add_pos_nonneg)
  with assms(1) show ?thesis
    by (simp add: random_Apply_def rw_Next_def items sum last_map)
qed

section \<open>Lowest latency: lemmas\<close>

definition probe_ok :: "'a item_scheme \<Rightarrow> bool" where
  "probe_ok v \<longleftrightarrow> (case it_ProbeResult v of None \<Rightarrow> False | Some r \<Rightarrow> prb_Success r)"

definition probe_latency :: "'a item_scheme \<Rightarrow> int" where
  "probe_latency v = (case it_ProbeResult v of None \<Rightarrow> 0 | Some r \<Rightarrow> prb_Latency r)"

definition lowest_inv :: "'a item_scheme list \<Rightarrow> (int \<times> nat) option \<Rightarrow> nat option \<Rightarrow> bool" where
  "lowest_inv ps best fb \<longleftrightarrow>
     (case best of
        None \<Rightarrow> (\<forall>p \<in> set ps. \<not> probe_ok p)
      | Some (l, k) \<Rightarrow> k < length ps \<and> probe_ok (ps ! k) \<and> probe_latency (ps ! k) = l \<and>
          (\<forall>p \<in> set ps. probe_ok p \<longrightarrow> l \<le> probe_latency p)) \<and>
     (case fb of
        None \<Rightarrow> (\<forall>p \<in> set ps. probe_ok p)
      | Some k \<Rightarrow> k < length ps \<and> \<not> probe_ok (ps ! k) \<and> (\<forall>j < k. probe_ok (ps ! j)))"

lemma lowest_inv_step_fb:
  "\<not> probe_ok v \<Longrightarrow> lowest_inv ps best fb \<Longrightarrow>
   lowest_inv (ps @ [v]) best (if fb = None then Some (length ps) else fb)"
  by (auto simp: lowest_inv_def nth_append split: option.splits)

lemma lowest_inv_step_ok:
  assumes "probe_ok v" and "lowest_inv ps best fb"
  shows "lowest_inv (ps @ [v])
           (if (case best of None \<Rightarrow> True | Some (l, k) \<Rightarrow> probe_latency v < l)
            then Some (probe_latency v, length ps) else best) fb"
  using assms by (cases best) (fastforce simp: lowest_inv_def nth_append split: option.splits)+

lemma lowest_loop_skip:
  "\<not> probe_ok v \<Longrightarrow>
   lowest_loop best fb i (v # vs) = lowest_loop best (if fb = None then Some i else fb) (Suc i) vs"
  by (cases "it_ProbeResult v") (auto simp: probe_ok_def)

lemma lowest_loop_ok:
  "probe_ok v \<Longrightarrow>
   lowest_loop best fb i (v # vs) =
   lowest_loop (if (case best of None \<Rightarrow> True | Some (l, k) \<Rightarrow> probe_latency v < l)
                then Some (probe_latency v, i) else best) fb (Suc i) vs"
  by (cases "it_ProbeResult v"; cases best) (auto simp: probe_ok_def probe_latency_def)

lemma lowest_loop_inv:
  "lowest_inv ps best fb \<Longrightarrow>
   lowest_inv (ps @ vs) (fst (lowest_loop best fb (length ps) vs)) (snd (lowest_loop best fb (length ps) vs))"
proof (induction vs arbitrary: ps best fb)
  case (Cons v vs)
  show ?case
  proof (cases "probe_ok v")
    case False
    from Cons.IH [OF lowest_inv_step_fb [OF False Cons.prems]] show ?thesis
      unfolding lowest_loop_skip [OF False] by simp
  next
    case True
    from Cons.IH [OF lowest_inv_step_ok [OF True Cons.prems]] show ?thesis
      unfolding lowest_loop_ok [OF True] by simp
  qed
qed simp

lemma lowestLatency_spec:
  assumes "lowestLatency_Apply vs = Some v"
  shows "v \<in> set vs"
    and "\<exists>u \<in> set vs. probe_ok u \<Longrightarrow>
         probe_ok v \<and> (\<forall>u \<in> set vs. probe_ok u \<longrightarrow> probe_latency v \<le> probe_latency u)"
    and "\<forall>u \<in> set vs. \<not> probe_ok u \<Longrightarrow> v = hd vs"
proof -
  obtain best fb where l: "lowest_loop None None 0 vs = (best, fb)" by fastforce
  have inv: "lowest_inv vs best fb"
    using lowest_loop_inv [of "[]" None None vs] l by (simp add: lowest_inv_def)
  have ne: "vs \<noteq> []" using assms by (auto simp: lowestLatency_Apply_def)
  show "v \<in> set vs"
    using assms inv l ne
    by (auto simp: lowestLatency_Apply_def lowest_inv_def split: option.splits prod.splits)
  show "probe_ok v \<and> (\<forall>u \<in> set vs. probe_ok u \<longrightarrow> probe_latency v \<le> probe_latency u)"
    if "\<exists>u \<in> set vs. probe_ok u"
    using assms inv l ne that
    by (auto simp: lowestLatency_Apply_def lowest_inv_def split: option.splits prod.splits)
  show "v = hd vs" if none: "\<forall>u \<in> set vs. \<not> probe_ok u"
  proof -
    have "best = None" using inv none by (auto simp: lowest_inv_def split: option.splits prod.splits)
    moreover have "fb = Some 0"
    proof (cases fb)
      case None
      with inv none ne show ?thesis by (cases vs) (auto simp: lowest_inv_def)
    next
      case (Some k)
      with inv none show ?thesis by (cases k) (auto simp: lowest_inv_def)
    qed
    ultimately show ?thesis using assms l ne by (simp add: lowestLatency_Apply_def hd_conv_nth)
  qed
qed

section \<open>Every strategy picks one of the items\<close>

lemma roundRobin_member: "fst (roundRobin_Apply c vs) = Some v \<Longrightarrow> v \<in> set vs"
proof -
  assume a: "fst (roundRobin_Apply c vs) = Some v"
  then have ne: "length vs \<noteq> 0" and v: "v = vs ! unat (c mod of_nat (length vs))"
    by (auto simp: roundRobin_Apply_def Let_def split: if_splits)
  have "unat (c mod of_nat (length vs)) < length vs"
  proof (cases "(of_nat (length vs) :: 64 word) = 0")
    case True
    then have "2 ^ 64 \<le> length vs"
      using ne dvd_imp_le [of "2 ^ 64" "length vs"] word_of_nat_eq_0_iff [of "length vs", where ?'a = 64]
      by simp
    then show ?thesis
      using True unsigned_less [of c, where ?'a = nat] by simp
  next
    case False
    then have "unat (c mod of_nat (length vs)) < unat (of_nat (length vs) :: 64 word)"
      by (simp add: unat_mod_distrib unat_gt_0)
    also have "\<dots> \<le> length vs" by (simp add: unsigned_of_nat take_bit_eq_mod)
    finally show ?thesis .
  qed
  with v show ?thesis by simp
qed

lemma nth_mod_member: "length vs \<noteq> 0 \<Longrightarrow> vs ! nat (k mod int (length vs)) \<in> set vs"
  by (intro nth_mem) (simp add: nat_less_iff)

lemma hash_member: "hash_Apply r ctx vs = Some v \<Longrightarrow> v \<in> set vs"
  by (auto simp: hash_Apply_def Intn_def nth_mod_member split: if_splits option.splits)

lemma random_member: "random_Apply r rw vs = Some v \<Longrightarrow> v \<in> set vs"
proof -
  assume a: "random_Apply r rw vs = Some v"
  then obtain w where "vs \<noteq> []" "v = next_loop w (map (\<lambda>v. (v, random_weight v)) vs) (last vs)"
    by (auto simp: random_Apply_def rw_Next_def fold_rw_Add_items rw_Reset_def last_map split: if_splits)
  then show ?thesis
    using next_loop_member [of w "map (\<lambda>v. (v, random_weight v)) vs" "last vs"]
    by (auto simp: image_image)
qed

lemma fifo_member: "fifo_Apply vs = Some v \<Longrightarrow> v \<in> set vs"
  by (auto simp: fifo_Apply_def split: if_splits)

interpretation strategies: selector_strategy "Apply r ctx" for r ctx
proof unfold_locales
  fix s :: strategy and vs :: "'v item_scheme list" and v
  assume "fst (Apply r ctx s vs) = Some v"
  then show "v \<in> set vs"
    by (cases s)
       (auto simp: split_def Let_def dest: roundRobin_member hash_member random_member fifo_member
         lowestLatency_spec(1))
next
  show "fst (Apply r ctx s []) = None" for s :: strategy
    by (cases s)
       (simp_all add: roundRobin_Apply_def random_Apply_def fifo_Apply_def hash_Apply_def
         lowestLatency_Apply_def)
qed

lemma Apply_Some:
  "st \<noteq> Random \<Longrightarrow> vs \<noteq> [] \<Longrightarrow> fst (Apply r ctx st vs) \<noteq> None"
  by (cases st)
     (auto simp: roundRobin_Apply_def fifo_Apply_def hash_Apply_def lowestLatency_Apply_def Let_def
       split: option.splits prod.splits)

lemma Select_fst:
  "fst (Select r ctx now vs s) = fst (Apply r ctx (ds_strategy s) (apply_filters now (ds_filters s) vs))"
  by (cases "apply_filters now (ds_filters s) vs")
     (auto simp: Select_def Let_def strategies.app_Nil split: prod.splits)

lemma Select_member: "fst (Select r ctx now vs s) = Some v \<Longrightarrow> v \<in> set vs"
  unfolding Select_fst
  by (rule strategies.app_filtered [OF all_filters.selector_filter_axioms])

text \<open>The backup filter keeps a backup only if all items are backups, and never drops all items.\<close>

lemma backupFilter_primary:
  assumes "v \<in> set (backupFilter_Filter l)" and "GetBool (it_Metadata v) [''backup'']" and "u \<in> set l"
  shows "GetBool (it_Metadata u) [''backup'']"
proof (cases "length l \<le> 1")
  case True
  with assms show ?thesis by (cases l) (auto simp: backupFilter_Filter_def)
next
  case False
  with assms show ?thesis
    by (auto simp: backupFilter_Filter_def backup_loop_eq filter_empty_conv split: if_splits)
qed

lemma backupFilter_empty [simp]: "backupFilter_Filter l = [] \<longleftrightarrow> l = []"
  by (auto simp: backupFilter_Filter_def backup_loop_eq filter_empty_conv)

lemma failFilter_alive:
  "\<forall>v \<in> set vs. \<not> IsFailed now v mf ft \<Longrightarrow> failFilter_Filter now mf ft vs = vs"
  by (simp add: failFilter_Filter_def filter_id_conv)

text \<open>Selection among items none of which is marked as failed.\<close>

lemma select_alive:
  assumes "vs \<noteq> []" and "\<forall>v \<in> set vs. \<not> IsFailed now v mf ft" and "st \<noteq> Random"
  shows "\<exists>v. fst (Select r ctx now vs \<lparr> ds_strategy = st, ds_filters = [FailFilter mf ft, BackupFilter] \<rparr>) = Some v \<and>
             v \<in> set vs \<and>
             (GetBool (it_Metadata v) [''backup''] \<longrightarrow> (\<forall>u \<in> set vs. GetBool (it_Metadata u) [''backup'']))"
proof -
  have sel: "fst (Select r ctx now vs \<lparr> ds_strategy = st, ds_filters = [FailFilter mf ft, BackupFilter] \<rparr>) =
        fst (Apply r ctx st (backupFilter_Filter vs))"
    by (simp add: Select_fst apply_filters_def failFilter_alive [OF assms(2)])
  from Apply_Some [OF assms(3), of "backupFilter_Filter vs" r ctx] assms(1)
  obtain v where v: "fst (Apply r ctx st (backupFilter_Filter vs)) = Some v" by auto
  then have "v \<in> set (backupFilter_Filter vs)" by (rule strategies.app_member)
  with v sel backup_filter.filt_subset backupFilter_primary [of v vs] show ?thesis by auto
qed

lemma crc32_check: "crc32_ieee ''a'' = 0xE8B7BE43"
  by code_simp

section \<open>Parallel dialling: lemmas\<close>

fun arrived :: "('c, 'e) arrival list \<Rightarrow> (nat \<times> 'c) list" where
  "arrived [] = []"
| "arrived (Connected n c # as) = (n, c) # arrived as"
| "arrived (DialFailed n e # as) = arrived as"

fun dial_errors :: "('c, 'e) arrival list \<Rightarrow> 'e list" where
  "dial_errors [] = []"
| "dial_errors (Connected n c # as) = dial_errors as"
| "dial_errors (DialFailed n e # as) = e # dial_errors as"

lemma drain_arrived: "drain as = map snd (arrived as)"
  by (induction as rule: drain.induct) simp_all

lemma first_success_none:
  "arrived as = [] \<Longrightarrow> first_success as errs = (None, errs @ dial_errors as, [])"
  by (induction as errs rule: first_success.induct) auto

lemma first_success_some:
  "arrived as = b # bs \<Longrightarrow> \<exists>es rest. first_success as errs = (Some b, es, rest) \<and> arrived rest = bs"
  by (induction as errs rule: first_success.induct) auto

section \<open>Properties\<close>

text \<open>
  (C12) Round robin is fair: as many calls in a row as there are items give every item once, in the
  order of the list from the current position on, as long as the 64-bit counter does not wrap around.
\<close>

theorem round_robin_fair:
  assumes "vs \<noteq> []" and "unat c + length vs \<le> 2 ^ 64" and "length vs < 2 ^ 64"
  shows "rr_calls (length vs) c vs = map Some (rotate (unat c) vs)"
  using rr_calls_eq [OF assms(1, 3, 2)] rotate_conv_map_nth [of "unat c" vs] by simp

theorem round_robin_fair_witness:
  "rr_calls (length [''a'', ''b'', ''c'']) 4 [''a'', ''b'', ''c''] = [Some ''b'', Some ''c'', Some ''a'']"
proof -
  have "rr_calls (length [''a'', ''b'', ''c'']) 4 [''a'', ''b'', ''c''] =
        map Some (rotate (unat (4 :: 64 word)) [''a'', ''b'', ''c''])"
    by (rule round_robin_fair) simp_all
  also have "\<dots> = [Some ''b'', Some ''c'', Some ''a'']" by code_simp
  finally show ?thesis .
qed

text \<open>
  (C13) The random strategy is proportional to the weights: of the numbers the generator can draw,
  as many lead to an item as its weight says (1 for a missing or non-positive weight), times the
  number of its occurrences. The sum of the weights must be an \<open>int\<close>.
\<close>

theorem random_proportional:
  fixes vs :: "'a item_scheme list"
  assumes "vs \<noteq> []" and "(\<Sum>v\<leftarrow>vs. random_weight v) \<le> max_int64"
  shows "card {r. 0 \<le> r \<and> r < (\<Sum>v\<leftarrow>vs. random_weight v) \<and> random_Apply r rw vs = Some v} =
         count_list vs v * nat (random_weight v)"
proof -
  let ?items = "map (\<lambda>v. (v, random_weight v)) vs" and ?S = "\<Sum>v\<leftarrow>vs. random_weight v"
  have "{r. 0 \<le> r \<and> r < ?S \<and> random_Apply r rw vs = Some v} =
        {r. 0 \<le> r \<and> r < sum_list (map snd ?items) \<and> next_loop (r + 1) ?items (last vs) = v}"
  proof (rule Collect_cong)
    fix r
    have m: "Intn r ?S = r" if "0 \<le> r" "r < ?S"
      unfolding Intn_def using that by (rule mod_pos_pos_trivial)
    have "sum_list (map snd ?items) = ?S" by (simp add: comp_def)
    with m show "0 \<le> r \<and> r < ?S \<and> random_Apply r rw vs = Some v \<longleftrightarrow>
        0 \<le> r \<and> r < sum_list (map snd ?items) \<and> next_loop (r + 1) ?items (last vs) = v"
      unfolding random_Apply_eq [OF assms] by (metis option.inject)
  qed
  moreover have "nat (sum_list (map snd (filter (\<lambda>i. fst i = v) ?items))) =
                 count_list vs v * nat (random_weight v)"
  proof -
    have "sum_list (map snd (filter (\<lambda>i. fst i = v) ?items)) = int (count_list vs v) * random_weight v"
      by (induction vs) (auto simp: algebra_simps)
    then show ?thesis by (simp add: nat_mult_distrib)
  qed
  moreover have "card {r. 0 \<le> r \<and> r < sum_list (map snd ?items) \<and> next_loop (r + 1) ?items (last vs) = v} =
      nat (sum_list (map snd (filter (\<lambda>i. fst i = v) ?items)))"
    by (rule next_loop_count) auto
  ultimately show ?thesis by (simp only:)
qed

definition weighted_item :: "int \<Rightarrow> item" where
  "weighted_item w =
     \<lparr> it_Metadata = Some (NewMetadata [(''Weight'', VInt w)]), it_Marker = None, it_ProbeResult = None \<rparr>"

theorem random_proportional_witness:
  "card {r. 0 \<le> r \<and> r < 8 \<and>
            random_Apply r \<lparr> rw_items = [], rw_sum = 0 \<rparr> [weighted_item 3, weighted_item 5] =
              Some (weighted_item 5)} = 5"
proof -
  have w: "random_weight (weighted_item 3) = 3" "random_weight (weighted_item 5) = 5" by code_simp+
  have d: "weighted_item 3 \<noteq> weighted_item 5" by code_simp
  show ?thesis
    using random_proportional [of "[weighted_item 3, weighted_item 5]"
        "\<lparr> rw_items = [], rw_sum = 0 \<rparr>" "weighted_item 5"] w d
    by (simp add: max_int64_def)
qed

text \<open>
  (C14) The strategy for the lowest latency: if some item has a successful probe, the answer is one
  of these with the least latency; otherwise it is the first item.
\<close>

theorem lowest_latency_minimal:
  assumes "vs \<noteq> []"
  shows "\<exists>v. lowestLatency_Apply vs = Some v \<and> v \<in> set vs \<and>
           (if \<exists>u \<in> set vs. probe_ok u
            then probe_ok v \<and> (\<forall>u \<in> set vs. probe_ok u \<longrightarrow> probe_latency v \<le> probe_latency u)
            else v = hd vs)"
proof -
  obtain v where "lowestLatency_Apply vs = Some v"
    using Apply_Some [of LowestLatency vs] assms by auto
  with lowestLatency_spec [OF this] show ?thesis by auto
qed

definition probed_item :: "bool \<Rightarrow> int \<Rightarrow> item" where
  "probed_item ok l =
     \<lparr> it_Metadata = None, it_Marker = None,
       it_ProbeResult = Some \<lparr> prb_Success = ok, prb_Latency = l \<rparr> \<rparr>"

theorem lowest_latency_minimal_witness:
  "lowestLatency_Apply [probed_item False 1, probed_item True 9, probed_item True 4] =
     Some (probed_item True 4)"
  using lowest_latency_minimal [of "[probed_item False 1, probed_item True 9, probed_item True 4]"]
  by (auto simp: probed_item_def probe_ok_def probe_latency_def)


definition failed_item :: "int \<Rightarrow> bool \<Rightarrow> item" where
  "failed_item n b =
     \<lparr> it_Metadata = Some (NewMetadata [(''backup'', VBool b)]),
       it_Marker = Some \<lparr> mk_Count = n, mk_Time = 0 \<rparr>, it_ProbeResult = None \<rparr>"



end
