(* ===== verification/Hop.thy ===== *)
theory Hop
  imports Rules Selector "HOL-Library.Multiset"
begin

text \<open>
  The package \<open>x/hop\<close>: the choice of a node of a hop, the reload of the node list, and groups of
  hops.

  A node (\<open>chain.Node\<close> of \<open>go-gost/core\<close>) is an item of the selectors with the options that the
  hop reads. Matchers of nodes are functions on requests that return an answer (the interface
  \<open>routing.Matcher\<close>). \<open>sort.Slice\<close> does not promise an order of equal elements: the sorted list is
  given by an argument \<open>srt\<close>, of which only that it sorts is assumed. The JSON decoder and the parser
  of a node's configuration (\<open>x/config/parsing/node\<close>) are arguments of the reload.
\<close>

section \<open>Nodes and options\<close>

record node = item +
  nd_Name :: string
  nd_Addr :: string
  nd_Priority :: int
  nd_Bypass :: "bypass option"
  nd_Matcher :: "(request \<Rightarrow> bool) option"

text \<open>The options of a call of \<open>Select\<close>: those of a request, and the address.\<close>

record SelectOptions = request +
  so_Addr :: string

record hop_options =
  ho_nodes :: "node option list"
  ho_bypass :: "bypass option"
  ho_selector :: "defaultSelector option"
  ho_failMaxFails :: int
  ho_failTimeout :: int
  ho_period :: int

text \<open>The state: the nodes (nil pointers possible) and the options with the state of the selector.\<close>

record chainHop =
  ch_nodes :: "node option list"
  ch_options :: hop_options

definition NewHop :: "hop_options \<Rightarrow> chainHop" where
  "NewHop opts = \<lparr> ch_nodes = ho_nodes opts, ch_options = opts \<rparr>"

definition Nodes :: "chainHop option \<Rightarrow> node option list" where
  "Nodes p = (case p of None \<Rightarrow> [] | Some p \<Rightarrow> ch_nodes p)"

section \<open>Selection\<close>

definition isBackupNode :: "node \<Rightarrow> bool" where
  "isBackupNode n = GetBool (it_Metadata n) [''backup'']"

definition isAllBackup :: "node list \<Rightarrow> bool" where
  "isAllBackup ns \<longleftrightarrow> list_all (\<lambda>n. GetBool (it_Metadata n) [''backup'']) ns \<and> length ns > 0"

definition nodeMatches :: "SelectOptions \<Rightarrow> node option \<Rightarrow> bool" where
  "nodeMatches opts nd =
     (case nd of
        None \<Rightarrow> False
      | Some n \<Rightarrow>
          if (case nd_Bypass n of None \<Rightarrow> False
              | Some bp \<Rightarrow> bypass_Contains bp (rq_Network opts) (so_Addr opts)) then False
          else case nd_Matcher n of
                 None \<Rightarrow> True
               | Some m \<Rightarrow> m (request.truncate opts))"

text \<open>The variables of the scan over the nodes.\<close>

record scan =
  sn_nodes :: "node list"
  sn_maxPriority :: int
  sn_maxPriCount :: nat
  sn_maxPriNode :: "node option"
  sn_hasBackup :: bool
  sn_sawFailed :: bool

definition scan_init :: scan where
  "scan_init = \<lparr> sn_nodes = [], sn_maxPriority = 0, sn_maxPriCount = 0, sn_maxPriNode = None,
                 sn_hasBackup = False, sn_sawFailed = False \<rparr>"

definition node_failed :: "int \<Rightarrow> hop_options \<Rightarrow> node \<Rightarrow> bool" where
  "node_failed now hopts n = IsFailed now n (ho_failMaxFails hopts) (ho_failTimeout hopts)"

definition scan_priority :: "node \<Rightarrow> scan \<Rightarrow> scan" where
  "scan_priority n s =
     (let pri = nd_Priority n in
      if pri > sn_maxPriority s then
        s\<lparr> sn_maxPriority := pri, sn_maxPriCount := 1, sn_maxPriNode := Some n \<rparr>
      else if pri = sn_maxPriority s then s\<lparr> sn_maxPriCount := sn_maxPriCount s + 1 \<rparr>
      else s)"

definition scan_step :: "int \<Rightarrow> hop_options \<Rightarrow> SelectOptions \<Rightarrow> node option \<Rightarrow> scan \<Rightarrow> scan" where
  "scan_step now hopts opts nd s =
     (case nd of
        None \<Rightarrow> s
      | Some n \<Rightarrow>
          if node_failed now hopts n then s\<lparr> sn_sawFailed := True \<rparr>
          else if \<not> nodeMatches opts (Some n) then s
          else
            let s1 = scan_priority n s;
                s2 = (if \<not> sn_hasBackup s1 \<and> GetBool (it_Metadata n) [''backup'']
                      then s1\<lparr> sn_hasBackup := True \<rparr> else s1)
            in s2\<lparr> sn_nodes := sn_nodes s2 @ [n] \<rparr>)"

text \<open>The last resort: the first failed node that matches.\<close>

definition last_resort :: "int \<Rightarrow> hop_options \<Rightarrow> SelectOptions \<Rightarrow> node option list \<Rightarrow> node option" where
  "last_resort now hopts opts nds =
     (case find (\<lambda>nd. case nd of None \<Rightarrow> False
                 | Some n \<Rightarrow> node_failed now hopts n \<and> nodeMatches opts nd) nds of
        None \<Rightarrow> None
      | Some nd \<Rightarrow> nd)"

text \<open>The loop over the tiers of equal priority of the sorted nodes.\<close>

function tier_loop ::
  "int \<Rightarrow> select_ctx \<Rightarrow> int \<Rightarrow> bool \<Rightarrow> node list \<Rightarrow> defaultSelector option \<Rightarrow>
   node option \<times> defaultSelector option" where
  "tier_loop r ctx now hasAnyPrimary [] sel = (None, sel)"
| "tier_loop r ctx now hasAnyPrimary (n # ns) sel =
     (let tier = n # takeWhile (\<lambda>m. nd_Priority m = nd_Priority n) ns;
          rest = dropWhile (\<lambda>m. nd_Priority m = nd_Priority n) ns
      in if hasAnyPrimary \<and> isAllBackup tier then tier_loop r ctx now hasAnyPrimary rest sel
         else case sel of
                Some s \<Rightarrow>
                  (let (v, s') = Select r ctx now tier s
                   in if v \<noteq> None then (v, Some s')
                      else tier_loop r ctx now hasAnyPrimary rest (Some s'))
              | None \<Rightarrow> (Some n, None))"
  by pat_completeness auto
termination
  by (relation "measure (\<lambda>(r, ctx, now, h, ns, sel). length ns)")
     (auto simp: le_imp_less_Suc length_dropWhile_le)

definition chainHop_Select ::
  "(node list \<Rightarrow> node list) \<Rightarrow> int \<Rightarrow> select_ctx \<Rightarrow> int \<Rightarrow> SelectOptions \<Rightarrow> chainHop \<Rightarrow>
   node option \<times> chainHop" where
  "chainHop_Select srt r ctx now opts p =
     (let hopts = ch_options p in
      if (case ho_bypass hopts of None \<Rightarrow> False
          | Some bp \<Rightarrow> bypass_Contains bp (rq_Network opts) (so_Addr opts)) then (None, p)
      else
        let s = fold (scan_step now hopts opts) (Nodes (Some p)) scan_init;
            nodes = sn_nodes s;
            upd = (\<lambda>sel. p\<lparr> ch_options := hopts\<lparr> ho_selector := sel \<rparr> \<rparr>)
        in
        if length nodes = 0 then
          (if sn_sawFailed s then (last_resort now hopts opts (Nodes (Some p)), p) else (None, p))
        else if length nodes = 1 then (Some (nodes ! 0), p)
        else if sn_maxPriority s > 0 \<and> sn_maxPriCount s = 1 \<and>
                (case sn_maxPriNode s of None \<Rightarrow> False | Some m \<Rightarrow> \<not> isBackupNode m)
        then (sn_maxPriNode s, p)
        else if sn_maxPriCount s = length nodes then
          (case ho_selector hopts of
             Some sel \<Rightarrow> (let (v, sel') = Select r ctx now nodes sel in (v, upd (Some sel')))
           | None \<Rightarrow> (Some (nodes ! 0), p))
        else
          let hasAnyPrimary =
                (sn_hasBackup s \<and> list_ex (\<lambda>n. \<not> GetBool (it_Metadata n) [''backup'']) nodes);
              (v, sel') = tier_loop r ctx now hasAnyPrimary (srt nodes) (ho_selector hopts)
          in (v, upd sel'))"

section \<open>Reload\<close>

text \<open>
  \<open>parseNode\<close>: the decoder gives the configurations (nil entries possible) or an error, the parser a
  node or an error. The result is the nodes, and whether there was an error.
\<close>

definition parseNode ::
  "(string \<Rightarrow> 'c option list option) \<Rightarrow> ('c \<Rightarrow> node option) \<Rightarrow> string option \<Rightarrow> node list \<times> bool" where
  "parseNode decode parse r =
     (case r of
        None \<Rightarrow> ([], False)
      | Some s \<Rightarrow>
          (case decode s of
             None \<Rightarrow> ([], True)
           | Some ncs \<Rightarrow>
               let cs = concat (map (\<lambda>c. case c of None \<Rightarrow> [] | Some c \<Rightarrow> [c]) ncs)
               in (concat (map (\<lambda>c. case parse c of None \<Rightarrow> [] | Some n \<Rightarrow> [n]) cs),
                   list_ex (\<lambda>c. parse c = None) cs)))"

definition load1 ::
  "(string \<Rightarrow> 'c option list option) \<Rightarrow> ('c \<Rightarrow> node option) \<Rightarrow> (string option \<times> bool) option \<Rightarrow>
   node list \<times> bool" where
  "load1 decode parse l =
     (case l of
        None \<Rightarrow> ([], False)
      | Some (r, failed) \<Rightarrow> (let (ns, pe) = parseNode decode parse r in (ns, failed \<or> pe)))"

text \<open>The three loaders, in this order: each the answer and whether it is an error, if configured.\<close>

definition hop_load ::
  "(string \<Rightarrow> 'c option list option) \<Rightarrow> ('c \<Rightarrow> node option) \<Rightarrow> (string option \<times> bool) option \<Rightarrow>
   (string option \<times> bool) option \<Rightarrow> (string option \<times> bool) option \<Rightarrow> node list \<times> bool" where
  "hop_load decode parse file redis http =
     (let (a, e1) = load1 decode parse file; (b, e2) = load1 decode parse redis;
          (c, e3) = load1 decode parse http
      in (a @ b @ c, e1 \<or> e2 \<or> e3))"

definition hop_reload ::
  "(string \<Rightarrow> 'c option list option) \<Rightarrow> ('c \<Rightarrow> node option) \<Rightarrow> (string option \<times> bool) option \<Rightarrow>
   (string option \<times> bool) option \<Rightarrow> (string option \<times> bool) option \<Rightarrow> chainHop \<Rightarrow> chainHop \<times> bool" where
  "hop_reload decode parse file redis http p =
     (let (nl, err) = hop_load decode parse file redis http
      in (p\<lparr> ch_nodes := ho_nodes (ch_options p) @ map Some nl \<rparr>, err))"

section \<open>Groups of hops\<close>

text \<open>An entry has a failure marker of its own and no metadata; the hop is known by its \<open>Select\<close>.\<close>

record HopEntry = item +
  he_Select :: "SelectOptions \<Rightarrow> node option"
  he_Nodes :: "node option list option"  \<comment> \<open>\<^term>\<open>None\<close>: the hop is not a \<open>NodeList\<close>\<close>
  he_matcher :: "(request \<Rightarrow> bool) option"

record hopGroup =
  hg_entries :: "HopEntry list"
  hg_selector :: defaultSelector

definition DefaultMaxFails :: int where
  "DefaultMaxFails = 1"

definition NewHopGroup :: "HopEntry list \<Rightarrow> defaultSelector option \<Rightarrow> hopGroup" where
  "NewHopGroup entries sel =
     \<lparr> hg_entries = entries,
       hg_selector =
         (case sel of
            Some s \<Rightarrow> s
          | None \<Rightarrow> \<lparr> ds_strategy = RoundRobin 0,
                     ds_filters = [FailFilter DefaultMaxFails DefaultFailTimeout, BackupFilter] \<rparr>) \<rparr>"

definition group_eligible :: "SelectOptions \<Rightarrow> hopGroup \<Rightarrow> HopEntry list" where
  "group_eligible opts g =
     filter (\<lambda>e. case he_matcher e of None \<Rightarrow> True | Some m \<Rightarrow> m (request.truncate opts)) (hg_entries g)"

definition hopGroup_Select ::
  "int \<Rightarrow> select_ctx \<Rightarrow> int \<Rightarrow> SelectOptions \<Rightarrow> hopGroup option \<Rightarrow> node option \<times> hopGroup option" where
  "hopGroup_Select r ctx now opts g0 =
     (case g0 of
        None \<Rightarrow> (None, None)
      | Some g \<Rightarrow>
          if length (hg_entries g) = 0 then (None, g0)
          else
            let eligible = group_eligible opts g in
            if length eligible = 0 then (None, g0)
            else if length eligible = 1 then (he_Select (eligible ! 0) opts, g0)
            else
              let (se, s') = Select r ctx now eligible (hg_selector g);
                  g' = Some (g\<lparr> hg_selector := s' \<rparr>)
              in (case se of
                    Some e \<Rightarrow> (he_Select e opts, g')
                  | None \<Rightarrow> (he_Select (eligible ! 0) opts, g')))"

definition hopGroup_Nodes :: "hopGroup option \<Rightarrow> node option list" where
  "hopGroup_Nodes g =
     (case g of
        None \<Rightarrow> []
      | Some g \<Rightarrow>
          concat (map (\<lambda>e. case he_Nodes e of None \<Rightarrow> [] | Some ns \<Rightarrow> ns) (hg_entries g)))"

text \<open>
  The probe of an entry: its effect on the entry's marker, and the number of connections that are
  opened and closed. The answers of the node's transport and of the HTTP probe are arguments.
\<close>

datatype marker_event = Mark | Reset

datatype probe_type = ProbeCmd | ProbeHTTP | ProbeTCP

definition probeEntry ::
  "probe_type \<Rightarrow> marker_event list \<Rightarrow> node option \<Rightarrow> bool \<Rightarrow> bool \<Rightarrow> bool \<Rightarrow> marker_event list \<times> nat \<times> nat" where
  "probeEntry typ cmd nd dial_ok handshake_ok http_ok =
     (if typ = ProbeCmd then (cmd, 0, 0)
      else case nd of
        None \<Rightarrow> ([Mark], 0, 0)
      | Some n \<Rightarrow>
          if \<not> dial_ok then ([Mark], 0, 0)
          else if \<not> handshake_ok then ([Mark], 1, 1)
          else if typ = ProbeHTTP then
            (if \<not> http_ok then ([Mark], 1, 1) else ([Reset], 1, 1))
          else ([Reset], 1, 1))"

section \<open>The scan\<close>

text \<open>The nodes that pass both gates: not marked as failed, and matching.\<close>

definition somes :: "'v option list \<Rightarrow> 'v list" where
  "somes l = concat (map (\<lambda>x. case x of None \<Rightarrow> [] | Some v \<Rightarrow> [v]) l)"

definition eligible :: "int \<Rightarrow> hop_options \<Rightarrow> SelectOptions \<Rightarrow> node option list \<Rightarrow> node list" where
  "eligible now hopts opts nds =
     filter (\<lambda>n. \<not> node_failed now hopts n \<and> nodeMatches opts (Some n)) (somes nds)"

lemma set_somes [simp]: "set (somes l) = {v. Some v \<in> set l}"
  by (induction l) (auto simp: somes_def split: option.splits)

lemma somes_simps [simp]:
  "somes [] = []" "somes (None # l) = somes l" "somes (Some v # l) = v # somes l"
  "somes (l @ l') = somes l @ somes l'"
  by (simp_all add: somes_def)

definition scan_inv :: "scan \<Rightarrow> bool" where
  "scan_inv s \<longleftrightarrow>
     0 \<le> sn_maxPriority s \<and> (\<forall>n \<in> set (sn_nodes s). nd_Priority n \<le> sn_maxPriority s) \<and>
     sn_maxPriCount s = length (filter (\<lambda>n. nd_Priority n = sn_maxPriority s) (sn_nodes s)) \<and>
     (sn_maxPriority s > 0 \<longrightarrow>
        (\<exists>m \<in> set (sn_nodes s). sn_maxPriNode s = Some m \<and> nd_Priority m = sn_maxPriority s)) \<and>
     (sn_hasBackup s \<longleftrightarrow> (\<exists>n \<in> set (sn_nodes s). isBackupNode n))"

lemma scan_inv_init: "scan_inv scan_init"
  by (simp add: scan_inv_def scan_init_def)

lemma scan_inv_sawFailed [simp]: "scan_inv (s\<lparr> sn_sawFailed := b \<rparr>) = scan_inv s"
  by (simp add: scan_inv_def)

lemma scan_step_skip:
  "nd = None \<or> nd = Some n \<and> (node_failed now hopts n \<or> \<not> nodeMatches opts (Some n)) \<Longrightarrow>
   sn_nodes (scan_step now hopts opts nd s) = sn_nodes s \<and>
   scan_inv (scan_step now hopts opts nd s) = scan_inv s"
  by (elim disjE conjE) (simp_all add: scan_step_def)

lemma scan_step_take:
  assumes "\<not> node_failed now hopts n" and "nodeMatches opts (Some n)" and "scan_inv s"
  shows "sn_nodes (scan_step now hopts opts (Some n) s) = sn_nodes s @ [n]"
    and "scan_inv (scan_step now hopts opts (Some n) s)"
proof -
  have nf: "filter (\<lambda>m. nd_Priority m = nd_Priority n) (sn_nodes s) = []"
    if "nd_Priority n > sn_maxPriority s"
    using assms(3) that by (fastforce simp: scan_inv_def filter_empty_conv)
  show "sn_nodes (scan_step now hopts opts (Some n) s) = sn_nodes s @ [n]"
    using assms by (auto simp: scan_step_def scan_priority_def Let_def)
  show "scan_inv (scan_step now hopts opts (Some n) s)"
    using assms nf
    by (auto simp: scan_step_def scan_priority_def Let_def scan_inv_def isBackupNode_def)
qed

lemma scan_fold:
  assumes "scan_inv s"
  shows "sn_nodes (fold (scan_step now hopts opts) nds s) = sn_nodes s @ eligible now hopts opts nds"
    and "scan_inv (fold (scan_step now hopts opts) nds s)"
  using assms
proof (induction nds arbitrary: s)
  case (Cons nd nds)
  {
    case 1
    show ?case
    proof (cases "\<exists>n. nd = Some n \<and> \<not> node_failed now hopts n \<and> nodeMatches opts (Some n)")
      case True
      with Cons.IH(1) scan_step_take 1 show ?thesis by (auto simp: eligible_def)
    next
      case False
      then show ?thesis
        using Cons.IH(1) [of "scan_step now hopts opts nd s"] scan_step_skip [of nd _ now hopts opts s] 1
        by (cases nd) (auto simp: eligible_def)
    qed
  next
    case 2
    show ?case
    proof (cases "\<exists>n. nd = Some n \<and> \<not> node_failed now hopts n \<and> nodeMatches opts (Some n)")
      case True
      with Cons.IH(2) scan_step_take 2 show ?thesis by auto
    next
      case False
      then show ?thesis
        using Cons.IH(2) [of "scan_step now hopts opts nd s"] scan_step_skip [of nd _ now hopts opts s] 2
        by (cases nd) auto
    qed
  }
qed (simp_all add: eligible_def)

lemma sawFailed_scan:
  "sn_sawFailed (fold (scan_step now hopts opts) nds s) \<longleftrightarrow>
   sn_sawFailed s \<or> (\<exists>n. Some n \<in> set nds \<and> node_failed now hopts n)"
proof (induction nds arbitrary: s)
  case (Cons nd nds)
  then show ?case
    by (cases nd) (auto simp: scan_step_def scan_priority_def Let_def)
qed simp

section \<open>The tiers\<close>

text \<open>What the answer has to be: one of the candidates, a backup only if all are backups, and of
  the highest priority among the primaries (or among the backups).\<close>

definition best_node :: "node list \<Rightarrow> node \<Rightarrow> bool" where
  "best_node l n \<longleftrightarrow>
     n \<in> set l \<and> (isBackupNode n \<longrightarrow> (\<forall>m \<in> set l. isBackupNode m)) \<and>
     (\<forall>m \<in> set l. isBackupNode m = isBackupNode n \<longrightarrow> nd_Priority m \<le> nd_Priority n)"

definition standard_selector :: "hop_options \<Rightarrow> strategy \<Rightarrow> defaultSelector" where
  "standard_selector hopts st =
     \<lparr> ds_strategy = st, ds_filters = [FailFilter (ho_failMaxFails hopts) (ho_failTimeout hopts), BackupFilter] \<rparr>"

definition desc :: "node list \<Rightarrow> bool" where
  "desc l = sorted_wrt (\<lambda>a b. nd_Priority a \<ge> nd_Priority b) l"

lemma desc_tier:
  assumes "desc (n # ns)"
  shows "\<forall>m \<in> set (takeWhile (\<lambda>m. nd_Priority m = nd_Priority n) ns). nd_Priority m = nd_Priority n"
    and "\<forall>m \<in> set ns. nd_Priority m \<le> nd_Priority n"
    and "desc (dropWhile (\<lambda>m. nd_Priority m = nd_Priority n) ns)"
  using assms
  by (auto simp: desc_def dest: set_takeWhileD intro: sorted_wrt_dropWhile)

lemma select_tier:
  assumes "vs \<noteq> []" and "\<forall>v \<in> set vs. \<not> node_failed now hopts v" and "st \<noteq> Random"
  shows "\<exists>v. fst (Select r ctx now vs (standard_selector hopts st)) = Some v \<and> v \<in> set vs \<and>
             (isBackupNode v \<longrightarrow> (\<forall>u \<in> set vs. isBackupNode u))"
  using select_alive [OF assms(1) _ assms(3), of now "ho_failMaxFails hopts" "ho_failTimeout hopts" r ctx] assms(2)
  by (auto simp: standard_selector_def isBackupNode_def node_failed_def)

lemma tier_loop_best:
  assumes "desc l" and "l \<noteq> []" and "\<forall>v \<in> set l. \<not> node_failed now hopts v" and "st \<noteq> Random"
    and "h \<or> (\<forall>n \<in> set l. isBackupNode n) \<or> (\<forall>n \<in> set l. \<not> isBackupNode n)"
    and "h \<longrightarrow> (\<exists>n \<in> set l. \<not> isBackupNode n)"
  shows "\<exists>v. fst (tier_loop r ctx now h l (Some (standard_selector hopts st))) = Some v \<and> best_node l v"
  using assms
proof (induction "length l" arbitrary: l rule: less_induct)
  case less
  obtain n ns where l: "l = n # ns" using less.prems(2) by (cases l) auto
  let ?same = "\<lambda>m. nd_Priority m = nd_Priority n"
  let ?tier = "n # takeWhile ?same ns" and ?rest = "dropWhile ?same ns"
  have set_l: "set l = set ?tier \<union> set ?rest"
    unfolding l by (metis Un_insert_left list.simps(15) set_append takeWhile_dropWhile_id)
  note d = desc_tier [OF less.prems(1) [unfolded l]]
  show ?case
  proof (cases "h \<and> isAllBackup ?tier")
    case True
    then have tb: "\<forall>m \<in> set ?tier. isBackupNode m" by (auto simp: isAllBackup_def isBackupNode_def list_all_iff)
    with less.prems(6) True set_l have ex: "\<exists>m \<in> set ?rest. \<not> isBackupNode m" by auto
    have len: "length ?rest < length l" by (simp add: l le_imp_less_Suc length_dropWhile_le)
    have ne: "?rest \<noteq> []" using ex by (metis empty_iff empty_set)
    have alive: "\<forall>v \<in> set ?rest. \<not> node_failed now hopts v" using less.prems(3) set_l by blast
    have "\<exists>v. fst (tier_loop r ctx now h ?rest (Some (standard_selector hopts st))) = Some v \<and>
        best_node ?rest v"
    proof (rule less.hyps [OF len d(3) ne alive less.prems(4)])
      show "h \<or> (\<forall>n \<in> set ?rest. isBackupNode n) \<or> (\<forall>n \<in> set ?rest. \<not> isBackupNode n)"
        using True by (intro disjI1) (rule conjunct1)
      show "h \<longrightarrow> (\<exists>n \<in> set ?rest. \<not> isBackupNode n)" using ex by (rule impI)
    qed
    then obtain v where v: "fst (tier_loop r ctx now h ?rest (Some (standard_selector hopts st))) = Some v"
      "best_node ?rest v" by blast
    from v(2) ex have "\<not> isBackupNode v" by (auto simp: best_node_def)
    with v(2) tb have "best_node l v" unfolding best_node_def set_l by auto
    with v(1) True show ?thesis by (simp add: l Let_def)
  next
    case False
    obtain v where v: "fst (Select r ctx now ?tier (standard_selector hopts st)) = Some v" "v \<in> set ?tier"
      "isBackupNode v \<Longrightarrow> \<forall>u \<in> set ?tier. isBackupNode u"
      using select_tier [of ?tier now hopts st r ctx] less.prems(3, 4) set_l by auto
    have "fst (tier_loop r ctx now h l (Some (standard_selector hopts st))) = Some v"
      unfolding l tier_loop.simps Let_def if_not_P [OF False] option.case split_def
      using v(1) by simp
    moreover have "best_node l v"
    proof -
      have "nd_Priority v = nd_Priority n" using v(2) d(1) by (metis set_ConsD)
      moreover have "v \<in> set l" using v(2) set_l by blast
      moreover have "\<forall>m \<in> set l. nd_Priority m \<le> nd_Priority n" using d(2) by (simp add: l)
      moreover have "\<forall>m \<in> set l. isBackupNode m" if "isBackupNode v"
        using v(3) [OF that] False less.prems(5, 6) v(2) set_l that
        by (auto simp: isAllBackup_def isBackupNode_def list_all_iff)
      ultimately show ?thesis by (simp add: best_node_def)
    qed
    ultimately show ?thesis by blast
  qed
qed

section \<open>Properties\<close>

text \<open>\<open>sort.Slice\<close> permutes its argument into the order of descending priority.\<close>

definition sorts :: "(node list \<Rightarrow> node list) \<Rightarrow> bool" where
  "sorts srt \<longleftrightarrow> (\<forall>l. mset (srt l) = mset l \<and> desc (srt l))"

lemma best_node_mset: "mset l = mset l' \<Longrightarrow> best_node l n = best_node l' n"
  by (drule mset_eq_setD) (simp only: best_node_def)

lemma last_resort_spec:
  "last_resort now hopts opts nds =
     find (\<lambda>n. node_failed now hopts n \<and> nodeMatches opts (Some n)) (somes nds)"
proof (induction nds)
  case (Cons nd nds)
  then show ?case by (cases nd) (auto simp: last_resort_def)
qed (simp add: last_resort_def)

lemma scan_facts:
  "sn_nodes (fold (scan_step now hopts opts) nds scan_init) = eligible now hopts opts nds"
  "scan_inv (fold (scan_step now hopts opts) nds scan_init)"
  "sn_sawFailed (fold (scan_step now hopts opts) nds scan_init) \<longleftrightarrow>
     (\<exists>n. Some n \<in> set nds \<and> node_failed now hopts n)"
  using scan_fold [OF scan_inv_init, of now hopts opts nds] sawFailed_scan [of now hopts opts nds scan_init]
  by (simp_all add: scan_init_def)

definition hop_bypassed :: "SelectOptions \<Rightarrow> chainHop \<Rightarrow> bool" where
  "hop_bypassed opts p \<longleftrightarrow>
     (case ho_bypass (ch_options p) of None \<Rightarrow> False
      | Some bp \<Rightarrow> bypass_Contains bp (rq_Network opts) (so_Addr opts))"

lemma filter_length_all: "length (filter P l) = length l \<Longrightarrow> x \<in> set l \<Longrightarrow> P x"
  by (metis filter_id_conv length_filter_less less_irrefl)

lemma hop_select_eligible:
  assumes "sorts srt" and "\<not> hop_bypassed opts p" and "st \<noteq> Random"
    and sel: "ho_selector (ch_options p) = Some (standard_selector (ch_options p) st)"
    and ne: "eligible now (ch_options p) opts (ch_nodes p) \<noteq> []"
  shows "\<exists>n. fst (chainHop_Select srt r ctx now opts p) = Some n \<and>
             best_node (eligible now (ch_options p) opts (ch_nodes p)) n"
proof -
  let ?hopts = "ch_options p" and ?el = "eligible now (ch_options p) opts (ch_nodes p)"
  define s where "s = fold (scan_step now ?hopts opts) (ch_nodes p) scan_init"
  have nodes: "sn_nodes s = ?el" and inv: "scan_inv s"
    unfolding s_def by (rule scan_facts)+
  have alive: "\<forall>v \<in> set ?el. \<not> node_failed now ?hopts v" by (simp add: eligible_def)
  have nb: "\<not> (case ho_bypass ?hopts of None \<Rightarrow> False
      | Some bp \<Rightarrow> bypass_Contains bp (rq_Network opts) (so_Addr opts))"
    using assms(2) by (simp add: hop_bypassed_def)
  note unfold = chainHop_Select_def Let_def Nodes_def s_def [symmetric] nodes sel if_not_P [OF nb]
  consider (one) "length ?el = 1"
    | (top) "length ?el \<noteq> 1" "sn_maxPriority s > 0" "sn_maxPriCount s = 1"
        "case sn_maxPriNode s of None \<Rightarrow> False | Some m \<Rightarrow> \<not> isBackupNode m"
    | (same) "length ?el \<noteq> 1" "\<not> (sn_maxPriority s > 0 \<and> sn_maxPriCount s = 1 \<and>
        (case sn_maxPriNode s of None \<Rightarrow> False | Some m \<Rightarrow> \<not> isBackupNode m))"
        "sn_maxPriCount s = length ?el"
    | (tiers) "length ?el \<noteq> 1" "\<not> (sn_maxPriority s > 0 \<and> sn_maxPriCount s = 1 \<and>
        (case sn_maxPriNode s of None \<Rightarrow> False | Some m \<Rightarrow> \<not> isBackupNode m))"
        "sn_maxPriCount s \<noteq> length ?el" by blast
  then show ?thesis
  proof cases
    case one
    then obtain n where "?el = [n]" by (metis One_nat_def length_0_conv length_Suc_conv)
    then show ?thesis by (simp add: unfold best_node_def)
  next
    case top
    then obtain m where m: "sn_maxPriNode s = Some m" "\<not> isBackupNode m" by (auto split: option.splits)
    with inv top(2) nodes have "m \<in> set ?el" "nd_Priority m = sn_maxPriority s"
      "\<forall>n \<in> set ?el. nd_Priority n \<le> nd_Priority m" by (auto simp: scan_inv_def)
    with m top ne show ?thesis by (auto simp: unfold best_node_def)
  next
    case same
    from select_tier [OF ne alive assms(3), of r ctx] obtain v where
      v: "fst (Select r ctx now ?el (standard_selector ?hopts st)) = Some v" "v \<in> set ?el"
         "isBackupNode v \<longrightarrow> (\<forall>u \<in> set ?el. isBackupNode u)" by blast
    have "nd_Priority n = sn_maxPriority s" if "n \<in> set ?el" for n
      using inv same(3) nodes that
      by (intro filter_length_all [of "\<lambda>n. nd_Priority n = sn_maxPriority s" ?el]) (auto simp: scan_inv_def)
    with v have "best_node ?el v" by (auto simp: best_node_def)
    with v(1) same ne show ?thesis
      by (cases "Select r ctx now ?el (standard_selector ?hopts st)") (auto simp: unfold)
  next
    case tiers
    let ?h = "sn_hasBackup s \<and> list_ex (\<lambda>n. \<not> GetBool (it_Metadata n) [''backup'']) ?el"
    from assms(1) have m: "mset (srt ?el) = mset ?el" "desc (srt ?el)" by (auto simp: sorts_def)
    then have set_eq: "set (srt ?el) = set ?el" by (metis mset_eq_setD)
    have hb: "sn_hasBackup s \<longleftrightarrow> (\<exists>n \<in> set ?el. isBackupNode n)"
      using inv nodes by (simp add: scan_inv_def)
    have "\<exists>v. fst (tier_loop r ctx now ?h (srt ?el) (Some (standard_selector ?hopts st))) = Some v \<and>
              best_node (srt ?el) v"
    proof (rule tier_loop_best [OF m(2) _ _ assms(3)])
      show "srt ?el \<noteq> []" using ne set_eq by (metis set_empty)
      show "\<forall>v \<in> set (srt ?el). \<not> node_failed now ?hopts v" using alive set_eq by simp
      show "?h \<or> (\<forall>n \<in> set (srt ?el). isBackupNode n) \<or> (\<forall>n \<in> set (srt ?el). \<not> isBackupNode n)"
        unfolding hb set_eq list_ex_iff isBackupNode_def by blast
      show "?h \<longrightarrow> (\<exists>n \<in> set (srt ?el). \<not> isBackupNode n)"
        unfolding set_eq list_ex_iff isBackupNode_def by blast
    qed
    then show ?thesis
      using tiers ne best_node_mset [OF m(1)]
      by (cases "tier_loop r ctx now ?h (srt ?el) (Some (standard_selector ?hopts st))")
         (auto simp: unfold)
  qed
qed

lemma hop_select_no_candidate:
  assumes "\<not> hop_bypassed opts p" and "eligible now (ch_options p) opts (ch_nodes p) = []"
  shows "fst (chainHop_Select srt r ctx now opts p) =
         find (\<lambda>n. node_failed now (ch_options p) n \<and> nodeMatches opts (Some n)) (somes (ch_nodes p))"
proof -
  let ?hopts = "ch_options p"
  have nb: "\<not> (case ho_bypass ?hopts of None \<Rightarrow> False
      | Some bp \<Rightarrow> bypass_Contains bp (rq_Network opts) (so_Addr opts))"
    using assms(1) by (simp add: hop_bypassed_def)
  have "fst (chainHop_Select srt r ctx now opts p) =
      (if \<exists>n. Some n \<in> set (ch_nodes p) \<and> node_failed now ?hopts n
       then last_resort now ?hopts opts (ch_nodes p) else None)"
    by (auto simp: chainHop_Select_def Let_def Nodes_def scan_facts(1, 3) assms(2) if_not_P [OF nb])
  also have "\<dots> = last_resort now ?hopts opts (ch_nodes p)"
    using find_None_iff2 [of "\<lambda>n. node_failed now ?hopts n \<and> nodeMatches opts (Some n)"]
    by (auto simp: last_resort_spec)
  finally show ?thesis by (simp add: last_resort_spec)
qed


definition example_node :: "string \<Rightarrow> int \<Rightarrow> bool \<Rightarrow> node" where
  "example_node name pri backup =
     \<lparr> it_Metadata = Some (NewMetadata [(''backup'', VBool backup)]), it_Marker = None,
       it_ProbeResult = None, nd_Name = name, nd_Addr = name @ '':80'', nd_Priority = pri,
       nd_Bypass = None, nd_Matcher = None \<rparr>"

definition example_options :: hop_options where
  "example_options =
     \<lparr> ho_nodes = [Some (example_node ''a'' 5 True), None, Some (example_node ''b'' 1 False),
                   Some (example_node ''c'' 3 False)],
       ho_bypass = None,
       ho_selector = Some \<lparr> ds_strategy = RoundRobin 0, ds_filters = [FailFilter 2 second, BackupFilter] \<rparr>,
       ho_failMaxFails = 2, ho_failTimeout = second, ho_period = 0 \<rparr>"

definition example_select :: SelectOptions where
  "example_select = request.extend example_request \<lparr> so_Addr = ''example.com:443'' \<rparr>"


end
