(* ===== verification/Quic_Varint.thy ===== *)
theory Quic_Varint
  imports Gost_Prelude
begin

text \<open>
  The variable-length integers of the QUIC wire format (\<open>quic-go/quicvarint/varint.go\<close>, and
  \<open>Peek\<close> of \<open>io.go\<close>).

  A byte slice is a list of 8-bit words, a \<open>uint64\<close> is a 64-bit word, the shifts and masks are the
  ones of the source. \<open>Parse\<close> returns the value with the number of bytes consumed or the error;
  \<open>Append\<close>, \<open>AppendWithLen\<close> and \<open>Len\<close> panic as the source does. The lemmas say that parsing
  what was appended gives the number back, whatever follows, that the readers agree with each
  other, and which numbers and lengths can come out of the parser.
\<close>

unbundle bit_operations_syntax

type_synonym byte = "8 word"
type_synonym bytes = "byte list"
type_synonym u64 = "64 word"

datatype io_error = EOF | ErrUnexpectedEOF

section \<open>Definitions\<close>

definition maxVarInt1 :: u64 where "maxVarInt1 = 63"
definition maxVarInt2 :: u64 where "maxVarInt2 = 16383"
definition maxVarInt4 :: u64 where "maxVarInt4 = 1073741823"
definition maxVarInt8 :: u64 where "maxVarInt8 = 4611686018427387903"

lemmas maxVarInt_defs [gost_defs] = maxVarInt1_def maxVarInt2_def maxVarInt4_def maxVarInt8_def

text \<open>\<open>uint8(i)\<close>, \<open>uint64(b)\<close> and a byte shifted to its place.\<close>

abbreviation uint8 :: "u64 \<Rightarrow> byte" where
  "uint8 i \<equiv> ucast i"

abbreviation uint64 :: "byte \<Rightarrow> u64" where
  "uint64 b \<equiv> ucast b"

definition at_bit :: "byte \<Rightarrow> nat \<Rightarrow> u64" where
  "at_bit b n = push_bit n (uint64 b)"

text \<open>\<open>binary.BigEndian.Uint64\<close>.\<close>

definition be64 :: "bytes \<Rightarrow> u64" where
  "be64 b = at_bit (b ! 7) 0 OR at_bit (b ! 6) 8 OR at_bit (b ! 5) 16 OR at_bit (b ! 4) 24 OR
            at_bit (b ! 3) 32 OR at_bit (b ! 2) 40 OR at_bit (b ! 1) 48 OR at_bit (b ! 0) 56"

definition Parse :: "bytes \<Rightarrow> io_error + u64 \<times> nat" where
  "Parse b =
     (case b of [] \<Rightarrow> Inl EOF
      | first # _ \<Rightarrow>
          (let v = first AND 0x3f; k = drop_bit 6 first
           in if k = 0 then Inr (uint64 v, 1)
              else if k = 1 then
                (if length b < 2 then Inl ErrUnexpectedEOF
                 else Inr (uint64 (b ! 1) OR at_bit v 8, 2))
              else if k = 2 then
                (if length b < 4 then Inl ErrUnexpectedEOF
                 else Inr (uint64 (b ! 3) OR at_bit (b ! 2) 8 OR at_bit (b ! 1) 16 OR at_bit v 24, 4))
              else
                (if length b < 8 then Inl ErrUnexpectedEOF
                 else Inr (be64 b AND 0x3fffffffffffffff, 8))))"

definition Len :: "u64 \<Rightarrow> nat outcome" where
  "Len i = (if i \<le> maxVarInt1 then Done 1
            else if i \<le> maxVarInt2 then Done 2
            else if i \<le> maxVarInt4 then Done 4
            else if i \<le> maxVarInt8 then Done 8
            else Panic)"

definition Append :: "bytes \<Rightarrow> u64 \<Rightarrow> bytes outcome" where
  "Append b i =
     (if i \<le> maxVarInt1 then Done (b @ [uint8 i])
      else if i \<le> maxVarInt2 then Done (b @ [uint8 (drop_bit 8 i) OR 0x40, uint8 i])
      else if i \<le> maxVarInt4 then
        Done (b @ [uint8 (drop_bit 24 i) OR 0x80, uint8 (drop_bit 16 i), uint8 (drop_bit 8 i), uint8 i])
      else if i \<le> maxVarInt8 then
        Done (b @ [uint8 (drop_bit 56 i) OR 0xc0, uint8 (drop_bit 48 i), uint8 (drop_bit 40 i),
                   uint8 (drop_bit 32 i), uint8 (drop_bit 24 i), uint8 (drop_bit 16 i),
                   uint8 (drop_bit 8 i), uint8 i])
      else Panic)"

definition AppendWithLen :: "bytes \<Rightarrow> u64 \<Rightarrow> nat \<Rightarrow> bytes outcome" where
  "AppendWithLen b i n =
     (if n \<noteq> 1 \<and> n \<noteq> 2 \<and> n \<noteq> 4 \<and> n \<noteq> 8 then Panic
      else bind_outcome (Len i) (\<lambda>l.
        if l = n then Append b i
        else if l > n then Panic
        else let mark = (if n = 2 then [0x40] else if n = 4 then [0x80] else if n = 8 then [0xc0] else [])
             in Done (b @ mark @ replicate (n - l - 1) 0 @
                      map (\<lambda>j. uint8 (drop_bit (8 * (l - 1 - j)) i)) [0..<l])))"

text \<open>
  \<open>Read\<close> takes the bytes one at a time from a reader, here a slice with the rest that is
  left, and fails with the error of the reader, which at the end of the data is \<open>EOF\<close>.
\<close>

fun ReadByte :: "bytes \<Rightarrow> io_error + byte \<times> bytes" where
  "ReadByte [] = Inl EOF"
| "ReadByte (x # r) = Inr (x, r)"

fun read_bytes :: "nat \<Rightarrow> bytes \<Rightarrow> io_error + bytes \<times> bytes" where
  "read_bytes 0 r = Inr ([], r)"
| "read_bytes (Suc n) r =
     (case ReadByte r of Inl e \<Rightarrow> Inl e
      | Inr (x, r) \<Rightarrow> (case read_bytes n r of Inl e \<Rightarrow> Inl e | Inr (xs, r) \<Rightarrow> Inr (x # xs, r)))"

definition Read :: "bytes \<Rightarrow> io_error + u64 \<times> bytes" where
  "Read r =
     (case ReadByte r of Inl e \<Rightarrow> Inl e
      | Inr (firstByte, r) \<Rightarrow>
          (let l = (2::nat) ^ unat (drop_bit 6 (firstByte AND 0xc0)); b1 = firstByte AND (0xff - 0xc0)
           in if l = 1 then Inr (uint64 b1, r)
              else case read_bytes 1 r of Inl e \<Rightarrow> Inl e
              | Inr (bs, r) \<Rightarrow>
                  if l = 2 then Inr (uint64 (bs ! 0) + at_bit b1 8, r)
                  else case read_bytes 2 r of Inl e \<Rightarrow> Inl e
                  | Inr (cs, r) \<Rightarrow>
                      if l = 4 then
                        Inr (uint64 (cs ! 1) + at_bit (cs ! 0) 8 + at_bit (bs ! 0) 16 + at_bit b1 24, r)
                      else case read_bytes 4 r of Inl e \<Rightarrow> Inl e
                      | Inr (ds, r) \<Rightarrow>
                          Inr (uint64 (ds ! 3) + at_bit (ds ! 2) 8 + at_bit (ds ! 1) 16 +
                               at_bit (ds ! 0) 24 + at_bit (cs ! 1) 32 + at_bit (cs ! 0) 40 +
                               at_bit (bs ! 0) 48 + at_bit b1 56, r)))"

text \<open>
  \<open>Peek\<close> on a slice: a peek for more bytes than there are fails with \<open>EOF\<close>, as the peekers
  of the program do.
\<close>

definition peek_bytes :: "bytes \<Rightarrow> nat \<Rightarrow> io_error + bytes" where
  "peek_bytes p n = (if n \<le> length p then Inr (take n p) else Inl EOF)"

definition Peek :: "bytes \<Rightarrow> io_error + u64" where
  "Peek p =
     (case peek_bytes p 1 of Inl e \<Rightarrow> Inl e
      | Inr b \<Rightarrow>
          (let l = (2::nat) ^ unat (drop_bit 6 (b ! 0))
           in if l = 1 then Inr (uint64 (b ! 0 AND 0x3f))
              else case peek_bytes p l of Inl e \<Rightarrow> Inl e
              | Inr b \<Rightarrow> (case Parse b of Inl e \<Rightarrow> Inl e | Inr (val, _) \<Rightarrow> Inr val)))"

section \<open>Words of bounded size\<close>

lemma small_not_bit:
  fixes i :: "'a::len word"
  assumes "uint i < 2 ^ k" "k \<le> n"
  shows "\<not> bit i n"
proof -
  have "take_bit k (uint i) = uint i"
    using assms(1) by (intro take_bit_int_eq_self) auto
  then have "\<not> bit (uint i) n"
    using assms(2) by (metis bit_take_bit_iff not_less)
  then show ?thesis using bit_imp_le_length by (auto simp: bit_uint_iff)
qed

lemma bit_bound:
  fixes i :: "'a::len word"
  shows "uint i < 2 ^ k \<Longrightarrow> bit i n \<Longrightarrow> n < k"
  using small_not_bit not_less by blast

lemma and_3f_take: "(x::byte) AND 0x3f = take_bit 6 x"
proof -
  have "(0x3f::byte) = mask 6" by (simp add: mask_eq_exp_minus_1)
  then show ?thesis by (simp add: take_bit_eq_mask)
qed

lemma le_maxVarInt:
  "i \<le> maxVarInt1 \<longleftrightarrow> uint i < 2 ^ 6"
  "i \<le> maxVarInt2 \<longleftrightarrow> uint i < 2 ^ 14"
  "i \<le> maxVarInt4 \<longleftrightarrow> uint i < 2 ^ 30"
  "i \<le> maxVarInt8 \<longleftrightarrow> uint i < 2 ^ 62"
  by (simp_all add: maxVarInt_defs word_le_def) presburger+

lemma marked_byte:
  fixes x :: byte
  assumes "take_bit 6 x = x"
  shows "drop_bit 6 (x OR 0x40) = 1" "drop_bit 6 (x OR 0x80) = 2" "drop_bit 6 (x OR 0xc0) = 3"
    "(x OR 0x40) AND 0x3f = x" "(x OR 0x80) AND 0x3f = x" "(x OR 0xc0) AND 0x3f = x" "drop_bit 6 x = 0"
proof -
  have d: "drop_bit 6 x = 0" using assms by (metis drop_bit_take_bit diff_self_eq_0 take_bit_0)
  show "drop_bit 6 (x OR 0x40) = 1" "drop_bit 6 (x OR 0x80) = 2" "drop_bit 6 (x OR 0xc0) = 3" "drop_bit 6 x = 0"
    using d by (simp_all add: drop_bit_or)
  show "(x OR 0x40) AND 0x3f = x" "(x OR 0x80) AND 0x3f = x" "(x OR 0xc0) AND 0x3f = x"
    using assms by (simp_all add: and_3f_take take_bit_or)
qed

lemma top_byte:
  fixes i :: u64
  assumes "uint i < 2 ^ (k + 6)" "k + 6 \<le> 64"
  shows "take_bit 6 (uint8 (drop_bit k i)) = uint8 (drop_bit k i)"
proof (rule bit_word_eqI)
  fix n assume "n < LENGTH(8)"
  then show "bit (take_bit 6 (uint8 (drop_bit k i))) n \<longleftrightarrow> bit (uint8 (drop_bit k i)) n"
    using bit_bound[OF assms(1), of "k + n"] by (auto simp: bit_take_bit_iff bit_simps)
qed

text \<open>Appending the byte of \<open>i\<close> at the bits \<open>n..n+7\<close> to the bits below.\<close>

lemma join_step:
  fixes i :: u64
  shows "take_bit n i OR at_bit (uint8 (drop_bit n i)) n = take_bit (n + 8) i"
proof (rule bit_word_eqI)
  fix m assume "m < LENGTH(64)"
  then show "bit (take_bit n i OR at_bit (uint8 (drop_bit n i)) n) m \<longleftrightarrow> bit (take_bit (n + 8) i) m"
    by (cases "n \<le> m") (auto simp: at_bit_def bit_simps)
qed

lemma join_first: "uint64 (uint8 i) = take_bit 8 i" "at_bit (uint8 i) 0 = take_bit 8 i"
  by (auto simp: at_bit_def bit_simps intro!: bit_word_eqI)

lemma take_small:
  fixes i :: u64
  shows "uint i < 2 ^ k \<Longrightarrow> take_bit k i = i"
  by (rule bit_word_eqI) (auto simp: bit_take_bit_iff dest: bit_bound)

lemma uint_mono: "uint (i::u64) < 2 ^ k \<Longrightarrow> k \<le> n \<Longrightarrow> uint i < 2 ^ n"
  using power_increasing[of k n "2::int"] by linarith

lemma join2:
  fixes i :: u64
  assumes "uint i < 2 ^ 14"
  shows "uint64 (uint8 i) OR at_bit (uint8 (drop_bit 8 i)) 8 = i"
  using join_step[of 8 i] take_small[OF uint_mono[OF assms], of 16] by (simp add: join_first)

lemma join4:
  fixes i :: u64
  assumes "uint i < 2 ^ 30"
  shows "uint64 (uint8 i) OR at_bit (uint8 (drop_bit 8 i)) 8 OR at_bit (uint8 (drop_bit 16 i)) 16 OR
         at_bit (uint8 (drop_bit 24 i)) 24 = i"
  using join_step[of 8 i] join_step[of 16 i] join_step[of 24 i]
    take_small[OF uint_mono[OF assms], of 32] by (simp add: join_first flip: or.assoc)

lemma join_all:
  fixes i :: u64
  shows "at_bit (uint8 i) 0 OR at_bit (uint8 (drop_bit 8 i)) 8 OR at_bit (uint8 (drop_bit 16 i)) 16 OR
         at_bit (uint8 (drop_bit 24 i)) 24 OR at_bit (uint8 (drop_bit 32 i)) 32 OR
         at_bit (uint8 (drop_bit 40 i)) 40 OR at_bit (uint8 (drop_bit 48 i)) 48 OR
         at_bit (uint8 (drop_bit 56 i)) 56 = i"
  using join_step[of 8 i] join_step[of 16 i] join_step[of 24 i] join_step[of 32 i]
    join_step[of 40 i] join_step[of 48 i] join_step[of 56 i]
  by (simp add: join_first take_bit_word_eq_self flip: or.assoc)

lemma at_bit_or: "at_bit (x OR y) n = at_bit x n OR at_bit y n"
  by (rule bit_word_eqI) (auto simp: at_bit_def bit_simps)

lemma top_mark_masked: "(x OR at_bit 0xc0 56) AND 0x3fffffffffffffff = x AND 0x3fffffffffffffff"
  by (simp add: at_bit_def bit.conj_disj_distrib2)

lemma join8:
  fixes i :: u64
  assumes "uint i < 2 ^ 62"
  shows "be64 ([uint8 (drop_bit 56 i) OR 0xc0, uint8 (drop_bit 48 i), uint8 (drop_bit 40 i),
                uint8 (drop_bit 32 i), uint8 (drop_bit 24 i), uint8 (drop_bit 16 i),
                uint8 (drop_bit 8 i), uint8 i] @ r) AND 0x3fffffffffffffff = i"
proof -
  have m: "(0x3fffffffffffffff::u64) = mask 62" by (simp add: mask_eq_exp_minus_1)
  have "i AND 0x3fffffffffffffff = i"
    using take_small[OF assms] by (simp add: m take_bit_eq_mask)
  then show ?thesis
    using join_all[of i] top_mark_masked[of i]
    by (simp add: be64_def at_bit_or flip: or.assoc)
qed

section \<open>Encoding and decoding\<close>

text \<open>The bytes that \<^const>\<open>Append\<close> adds.\<close>

definition enc :: "u64 \<Rightarrow> bytes" where
  "enc i = (case Append [] i of Done e \<Rightarrow> e | Panic \<Rightarrow> [])"

abbreviation in_range :: "u64 \<Rightarrow> bool" where
  "in_range i \<equiv> i \<le> maxVarInt8"

lemma Append_enc [simp]: "in_range i \<Longrightarrow> Append b i = Done (b @ enc i)"
  by (simp add: enc_def Append_def)

lemma Append_panics: "\<not> in_range i \<Longrightarrow> Append b i = Panic"
  by (auto simp: Append_def le_maxVarInt)

lemma Len_enc [simp]: "in_range i \<Longrightarrow> Len i = Done (length (enc i))"
  by (simp add: enc_def Append_def Len_def)

lemma enc_length: "in_range i \<Longrightarrow> length (enc i) \<in> {1, 2, 4, 8}"
  by (simp add: enc_def Append_def)

lemma enc_nonempty [simp]: "in_range i \<Longrightarrow> enc i \<noteq> []"
  using enc_length[of i] by auto

lemma enc_length_le: "in_range i \<Longrightarrow> length (enc i) \<le> 8"
  using enc_length[of i] by auto

lemma Parse_enc [simp]:
  assumes "in_range i"
  shows "Parse (enc i @ r) = Inr (i, length (enc i))"
proof -
  have t: "uint i < 2 ^ (k + 6) \<Longrightarrow> k + 6 \<le> 64 \<Longrightarrow>
      take_bit 6 (uint8 (drop_bit k i)) = uint8 (drop_bit k i)" for k by (rule top_byte)
  consider "i \<le> maxVarInt1" | "\<not> i \<le> maxVarInt1" "i \<le> maxVarInt2"
    | "\<not> i \<le> maxVarInt2" "\<not> i \<le> maxVarInt1" "i \<le> maxVarInt4"
    | "\<not> i \<le> maxVarInt4" "\<not> i \<le> maxVarInt2" "\<not> i \<le> maxVarInt1" by blast
  then show ?thesis
  proof cases
    case 1
    then have u: "uint i < 2 ^ 6" by (simp only: le_maxVarInt)
    then have "take_bit 6 (uint8 i) = uint8 i" using t[of 0] by simp
    moreover have "uint64 (uint8 i) = i"
      using take_small[OF uint_mono[OF u], of 8] by (simp add: join_first)
    ultimately show ?thesis using 1 by (simp add: enc_def Append_def Parse_def marked_byte(7) and_3f_take)
  next
    case 2
    then have u: "uint i < 2 ^ 14" by (simp only: le_maxVarInt)
    note m = marked_byte[OF t[of 8]]
    show ?thesis using 2 u join2[OF u] by (simp add: enc_def Append_def Parse_def m)
  next
    case 3
    then have u: "uint i < 2 ^ 30" by (simp only: le_maxVarInt)
    note m = marked_byte[OF t[of 24]]
    show ?thesis using 3 u join4[OF u] by (simp add: enc_def Append_def Parse_def m)
  next
    case 4
    have u: "uint i < 2 ^ 62" using assms by (simp only: le_maxVarInt)
    note m = marked_byte[OF t[of 56]]
    show ?thesis using 4 assms u join8[OF u, of r] by (simp add: enc_def Append_def Parse_def m)
  qed
qed

lemma Parse_bounds:
  assumes "Parse b = Inr (v, n)"
  shows "in_range v" "n \<le> length b" "n \<in> {1, 2, 4, 8}"
proof -
  show "n \<le> length b" "n \<in> {1, 2, 4, 8}"
    using assms by (auto simp: Parse_def Let_def Suc_le_eq split: list.splits if_splits)
  have le6: "\<not> bit (x AND 0x3f) m" if "6 \<le> m" for x :: byte and m
    using that by (simp add: and_3f_take bit_take_bit_iff)
  have "(0x3fffffffffffffff::u64) = mask 62" by (simp add: mask_eq_exp_minus_1)
  then have m62: "\<not> bit (0x3fffffffffffffff::u64) m" if "62 \<le> m" for m
    using that by (metis bit_mask_iff not_less)
  have b8: "\<not> bit x m" if "8 \<le> m" for x :: byte and m using that bit_imp_le_length by fastforce
  have "\<not> bit v m" if "62 \<le> m" for m
    using assms that le6 m62 b8
    by (auto simp: Parse_def Let_def at_bit_def bit_simps split: list.splits if_splits)
  then have "take_bit 62 v = v" by (intro bit_word_eqI) (metis bit_take_bit_iff not_less)
  then show "in_range v"
    by (metis le_maxVarInt(4) take_bit_int_less_exp unsigned_take_bit_eq)
qed

lemma Parse_fails: "Parse b = Inl e \<Longrightarrow> e = EOF \<longleftrightarrow> b = []"
  by (auto simp: Parse_def Let_def split: list.splits if_splits)

section \<open>The other readers and the padded writer\<close>

lemma at_bit_add:
  assumes "\<And>m. n \<le> m \<Longrightarrow> \<not> bit x m"
  shows "x + at_bit y n = x OR at_bit y n"
  by (rule disjunctive_add) (use assms in \<open>auto simp: at_bit_def bit_simps\<close>)

lemma high_bits:
  "8 + n \<le> m \<Longrightarrow> \<not> bit (at_bit y n) m" "8 \<le> m \<Longrightarrow> \<not> bit (uint64 y) m"
  using bit_imp_le_length[of y "m - n"] bit_imp_le_length[of y m] by (auto simp: at_bit_def bit_simps)

lemma Read_masks:
  "(x::byte) AND (0xff - 0xc0) = x AND 0x3f" "drop_bit 6 ((x::byte) AND 0xc0) = drop_bit 6 x"
proof -
  show "x AND (0xff - 0xc0) = x AND 0x3f" by simp
  have "drop_bit 6 (0xc0::byte) = mask 2" by (simp add: mask_eq_exp_minus_1)
  moreover have "take_bit 2 (drop_bit 6 x) = drop_bit 6 x"
    by (rule bit_word_eqI) (auto simp: bit_take_bit_iff bit_simps dest: bit_imp_le_length)
  ultimately show "drop_bit 6 (x AND 0xc0) = drop_bit 6 x"
    by (simp add: drop_bit_and take_bit_eq_mask)
qed

lemma top_two: "drop_bit 6 (x::byte) \<in> {0, 1, 2, 3}"
proof -
  have "unat (drop_bit 6 x) = unat x div 64" by (rule trans[OF unat_drop_bit_eq]) (simp add: drop_bit_eq_div)
  moreover have "unat x < 256" using unsigned_less[of x, where 'a = nat] by simp
  ultimately have "unat (drop_bit 6 x) \<in> {0, 1, 2, 3}" by auto
  then show ?thesis by (auto simp: unat_eq_0 dest!: arg_cong[where f = "of_nat :: nat \<Rightarrow> byte"])
qed

lemma read_bytes_eq:
  "read_bytes n r = (if n \<le> length r then Inr (take n r, drop n r) else Inl EOF)"
  by (induction n arbitrary: r) (auto simp: neq_Nil_conv split: sum.splits elim: ReadByte.elims)

lemmas sum_to_or = at_bit_add high_bits bit_or_iff

lemma sum2: "uint64 d + at_bit c 8 = uint64 d OR at_bit c 8"
  by (simp add: sum_to_or)

lemma sum4:
  "uint64 d + at_bit c 8 + at_bit b 16 + at_bit a 24 = uint64 d OR at_bit c 8 OR at_bit b 16 OR at_bit a 24"
  by (simp add: sum_to_or or.assoc)

lemma sum8:
  "uint64 h + at_bit g 8 + at_bit f 16 + at_bit e 24 + at_bit d 32 + at_bit c 40 + at_bit b 48 +
     at_bit (a AND 0x3f) 56 =
   (at_bit h 0 OR at_bit g 8 OR at_bit f 16 OR at_bit e 24 OR at_bit d 32 OR at_bit c 40 OR
     at_bit b 48 OR at_bit a 56) AND 0x3fffffffffffffff"
proof -
  have m: "(0x3fffffffffffffff::u64) = mask 62" by (simp add: mask_eq_exp_minus_1)
  have low: "at_bit y n AND 0x3fffffffffffffff = at_bit y n" if "n + 8 \<le> 62" for y n
  proof (rule bit_word_eqI)
    fix k assume k: "k < LENGTH(64)"
    then have "k < 62 \<or> \<not> bit (at_bit y n) k" using that high_bits(1)[of n k y] by linarith
    then show "bit (at_bit y n AND 0x3fffffffffffffff) k \<longleftrightarrow> bit (at_bit y n) k"
      unfolding m using k by (auto simp only: bit_and_iff bit_mask_iff possible_bit_word)
  qed
  have top: "at_bit a 56 AND 0x3fffffffffffffff = at_bit (a AND 0x3f) 56"
    unfolding m and_3f_take by (rule bit_word_eqI) (auto simp: at_bit_def bit_simps)
  have "at_bit h 0 = uint64 h" by (simp add: at_bit_def)
  then show ?thesis
    using low[of 0 h] by (simp add: sum_to_or or.assoc bit.conj_disj_distrib2 low top)
qed

lemma length_ge_iff:
  "\<not> length s < 3 \<longleftrightarrow> (\<exists>a b c t. s = a # b # c # t)"
  "\<not> length s < 7 \<longleftrightarrow> (\<exists>a b c d e f g t. s = a # b # c # d # e # f # g # t)"
  by (auto simp: not_less numeral_eq_Suc Suc_le_length_iff)

lemma Read_Parse:
  "Read r = (case Parse r of Inl e \<Rightarrow> Inl EOF | Inr (v, n) \<Rightarrow> Inr (v, drop n r))"
proof (cases r)
  case Nil
  then show ?thesis by (simp add: Read_def Parse_def)
next
  case (Cons x s)
  note d = Cons Read_def Parse_def Read_masks(2) read_bytes_eq Let_def
  have b1: "x AND (0xff - 0xc0) = x AND 0x3f" by (rule Read_masks)
  consider "drop_bit 6 x = 0" | "drop_bit 6 x = 1" | "drop_bit 6 x = 2" | "drop_bit 6 x = 3"
    using top_two[of x] by auto
  then show ?thesis
  proof cases
    case 1
    then show ?thesis by (simp add: d)
  next
    case 2
    then show ?thesis by (cases s) (simp_all add: d sum2)
  next
    case 3
    then show ?thesis
      by (cases "length s < 3") (auto simp: d sum4 length_ge_iff)
  next
    case 4
    then show ?thesis
      by (cases "length s < 7") (auto simp: d be64_def length_ge_iff sum8)
  qed
qed

lemma Parse_cong:
  assumes "Parse b = Inr (v, n)" "n \<le> length c" "\<And>i. i < n \<Longrightarrow> c ! i = b ! i"
  shows "Parse c = Inr (v, n)"
proof -
  have n: "n \<in> {1, 2, 4, 8}" "n \<le> length b" using Parse_bounds[OF assms(1)] by auto
  then obtain x s where b: "b = x # s" by (cases b) auto
  from n obtain y t where c: "c = y # t" using assms(2) by (cases c) auto
  have yx: "y = x" using assms(3)[of 0] n(1) b c by auto
  consider "drop_bit 6 x = 0" | "drop_bit 6 x = 1" | "drop_bit 6 x = 2" | "drop_bit 6 x = 3"
    using top_two[of x] by auto
  then show ?thesis
  proof cases
    case 1
    then show ?thesis using assms(1) by (simp add: Parse_def b c yx)
  next
    case 2
    then show ?thesis using assms(1,2) assms(3)[of 1] by (auto simp add: Parse_def b c yx split: if_splits)
  next
    case 3
    then have "n = 4" using assms(1) by (simp add: Parse_def b split: if_splits)
    then show ?thesis using 3 assms(1,2) assms(3)[of 1] assms(3)[of 2] assms(3)[of 3]
      by (simp add: Parse_def b c yx split: if_splits)
  next
    case 4
    then have n8: "n = 8" using assms(1) by (simp add: Parse_def b split: if_splits)
    then have "be64 c = be64 b" by (simp add: be64_def assms(3))
    then show ?thesis using 4 n8 assms(1,2) by (simp add: Parse_def b c yx split: if_splits)
  qed
qed

lemma Parse_prefix:
  assumes "Parse b = Inr (v, n)"
  shows "Parse (take n b @ r) = Inr (v, n)"
  by (rule Parse_cong[OF assms]) (use Parse_bounds(2)[OF assms] in \<open>auto simp: nth_append\<close>)

definition enc_size :: "byte \<Rightarrow> nat" where
  "enc_size x = 2 ^ unat (drop_bit 6 x)"

lemma Parse_size:
  assumes "b = x # s"
  shows "Parse b = Inr (v, n) \<Longrightarrow> n = enc_size x" "Parse b = Inl e \<Longrightarrow> length b < enc_size x"
  using assms top_two[of x] by (auto simp: Parse_def Let_def enc_size_def split: if_splits)

lemma Peek_Parse:
  "Peek p = (case Parse p of Inl e \<Rightarrow> Inl EOF | Inr (v, n) \<Rightarrow> Inr v)"
proof (cases p)
  case Nil
  then show ?thesis by (simp add: Peek_def Parse_def peek_bytes_def)
next
  case (Cons x s)
  have P: "Peek p = (if enc_size x = 1 then Inr (uint64 (x AND 0x3f))
     else if enc_size x \<le> length p then
       (case Parse (take (enc_size x) p) of Inl e \<Rightarrow> Inl e | Inr (val, _) \<Rightarrow> Inr val)
     else Inl EOF)"
    using Cons by (simp add: Peek_def peek_bytes_def enc_size_def Let_def)
  have z: "enc_size x = 1 \<Longrightarrow> Parse p = Inr (uint64 (x AND 0x3f), 1)"
    using Cons by (simp add: Parse_def enc_size_def unat_eq_0)
  show ?thesis
  proof (cases "Parse p")
    case (Inl a)
    then show ?thesis using Parse_size(2)[OF Cons Inl] z by (auto simp: P)
  next
    case (Inr a)
    then obtain v n where p: "Parse p = Inr (v, n)" by (cases a) auto
    have t: "Parse (take n p) = Inr (v, n)" using Parse_prefix[OF p, of "[]"] by simp
    have n: "n = enc_size x" by (rule Parse_size(1)[OF Cons p])
    show ?thesis using p z t Parse_bounds(2)[OF p] by (auto simp: P n)
  qed
qed

lemma at_bit_0 [simp]: "at_bit 0 n = 0"
  by (simp add: at_bit_def)

lemma top_mark: "at_bit 0xc0 56 AND 0x3fffffffffffffff = 0"
  by (simp add: at_bit_def)

lemma and_top: "uint i < 2 ^ 62 \<Longrightarrow> i AND 0x3fffffffffffffff = (i::u64)"
proof -
  assume u: "uint i < 2 ^ 62"
  have "(0x3fffffffffffffff::u64) = mask 62" by (simp add: mask_eq_exp_minus_1)
  then show ?thesis using take_small[OF u] by (simp add: take_bit_eq_mask)
qed

lemma enc_length_cases:
  "length (enc i) = (if i \<le> maxVarInt1 then 1 else if i \<le> maxVarInt2 then 2
     else if i \<le> maxVarInt4 then 4 else if i \<le> maxVarInt8 then 8 else 0)"
  by (simp add: enc_def Append_def)

lemma enc_bits:
  "length (enc i) = 1 \<Longrightarrow> uint i < 2 ^ 6" "length (enc i) = 2 \<Longrightarrow> uint i < 2 ^ 14"
  "length (enc i) = 4 \<Longrightarrow> uint i < 2 ^ 30"
  by (simp_all only: le_maxVarInt[symmetric] enc_length_cases split: if_splits)

lemma padded_values:
  assumes "in_range i"
  shows "length (enc i) = 1 \<Longrightarrow> uint64 (uint8 i) = i"
    "length (enc i) = 2 \<Longrightarrow> uint64 (uint8 i) OR at_bit (uint8 (drop_bit 8 i)) 8 = i"
    "length (enc i) = 4 \<Longrightarrow> uint64 (uint8 i) OR at_bit (uint8 (drop_bit 8 i)) 8 OR
      at_bit (uint8 (drop_bit 16 i)) 16 OR at_bit (uint8 (drop_bit 24 i)) 24 = i"
    "i AND 0x3fffffffffffffff = i"
proof -
  show "length (enc i) = 1 \<Longrightarrow> uint64 (uint8 i) = i"
    using take_small[OF uint_mono[of i 6 8]] enc_bits(1)[of i] by (simp add: join_first)
  show "length (enc i) = 2 \<Longrightarrow> uint64 (uint8 i) OR at_bit (uint8 (drop_bit 8 i)) 8 = i"
    by (rule join2[OF enc_bits(2)])
  show "length (enc i) = 4 \<Longrightarrow> uint64 (uint8 i) OR at_bit (uint8 (drop_bit 8 i)) 8 OR
      at_bit (uint8 (drop_bit 16 i)) 16 OR at_bit (uint8 (drop_bit 24 i)) 24 = i"
    by (rule join4[OF enc_bits(3)])
  show "i AND 0x3fffffffffffffff = i" using assms by (intro and_top) (simp only: le_maxVarInt)
qed

lemma AppendWithLen_padded:
  assumes "in_range i" "length (enc i) < n" "n = 2 \<or> n = 4 \<or> n = 8"
  shows "\<exists>e. AppendWithLen b i n = Done (b @ e) \<and> length e = n \<and> Parse (e @ r) = Inr (i, n)"
proof -
  note v = padded_values[OF assms(1)]
  note d = AppendWithLen_def assms(1) Let_def Parse_def be64_def bit.conj_disj_distrib2 top_mark
  have z: "at_bit (uint8 i) 0 = uint64 (uint8 i)" by (simp add: at_bit_def)
  have w2: "uint64 (uint8 i) AND 0x3fffffffffffffff OR
      at_bit (uint8 (drop_bit 8 i)) 8 AND 0x3fffffffffffffff = i" if "length (enc i) = 2"
    using v(2)[OF that] v(4) by (simp only: bit.conj_disj_distrib2[symmetric])
  have w4: "uint64 (uint8 i) AND 0x3fffffffffffffff OR
      at_bit (uint8 (drop_bit 8 i)) 8 AND 0x3fffffffffffffff OR
      at_bit (uint8 (drop_bit 16 i)) 16 AND 0x3fffffffffffffff OR
      at_bit (uint8 (drop_bit 24 i)) 24 AND 0x3fffffffffffffff = i" if "length (enc i) = 4"
    using v(3)[OF that] v(4) by (simp only: bit.conj_disj_distrib2[symmetric])
  have reps: "replicate 2 x = [x, x]" "replicate 3 x = [x, x, x]" "replicate 5 x = [x, x, x, x, x]"
    "replicate 6 x = [x, x, x, x, x, x]" for x :: byte
    by (simp_all add: numeral_eq_Suc)
  have upts: "[0..<2] = [0, 1]" "[0..<4] = [0, 1, 2, 3]" by (simp_all add: upt_rec)
  consider "length (enc i) = 1" "n = 2" | "length (enc i) = 1" "n = 4" | "length (enc i) = 1" "n = 8"
    | "length (enc i) = 2" "n = 4" | "length (enc i) = 2" "n = 8" | "length (enc i) = 4" "n = 8"
    using enc_length[OF assms(1)] assms(2,3) by fastforce
  then show ?thesis
  proof cases
    case 1
    then show ?thesis using v(1) by (simp add: d)
  next
    case 2
    then show ?thesis using v(1) by (simp add: d reps upts)
  next
    case 3
    then show ?thesis using v(1,4) by (simp add: d z reps upts)
  next
    case 4
    then show ?thesis using v(2) by (simp add: d reps upts)
  next
    case 5
    then show ?thesis using w2 by (simp add: d z reps upts)
  next
    case 6
    then show ?thesis using w4 by (simp add: d z reps upts)
  qed
qed

section \<open>Properties\<close>

lemma Read_enc: "in_range i \<Longrightarrow> Read (enc i @ r) = Inr (i, r)"
  by (simp add: Read_Parse)

lemma Peek_enc: "in_range i \<Longrightarrow> Peek (enc i @ r) = Inr i"
  by (simp add: Peek_Parse)

lemma AppendWithLen_enc:
  assumes "in_range i" "n \<in> {1, 2, 4, 8}" "length (enc i) \<le> n"
  shows "\<exists>p. AppendWithLen b i n = Done (b @ p) \<and> length p = n \<and> Parse (p @ r) = Inr (i, n)"
proof (cases "length (enc i) = n")
  case True
  then show ?thesis using assms by (auto simp: AppendWithLen_def)
next
  case False
  then show ?thesis
    using assms enc_length[OF assms(1)] by (intro AppendWithLen_padded) auto
qed



text \<open>
  (C21) On any input the parser stays within the slice: what it returns is below \<open>2^62\<close>, was
  encoded in 1, 2, 4 or 8 bytes, and these bytes are there. It fails exactly when the slice is
  empty or shorter than its first byte announces, and writing a larger number panics.
\<close>

theorem varint_parse_bounds:
  "(case Parse b of
      Inr (v, n) \<Rightarrow> v \<le> maxVarInt8 \<and> n \<in> {1, 2, 4, 8} \<and> n \<le> length b
    | Inl e \<Rightarrow> b = [] \<and> e = EOF \<or>
               b \<noteq> [] \<and> e = ErrUnexpectedEOF \<and> length b < 2 ^ unat (drop_bit 6 (hd b))) \<and>
   (Append c i = Panic) = (maxVarInt8 < i)"
proof (intro conjI)
  show "(Append c i = Panic) = (maxVarInt8 < i)"
    using Append_enc[of i c] Append_panics[of i c] by (metis not_less outcome.distinct(1))
  show "case Parse b of
      Inr (v, n) \<Rightarrow> v \<le> maxVarInt8 \<and> n \<in> {1, 2, 4, 8} \<and> n \<le> length b
    | Inl e \<Rightarrow> b = [] \<and> e = EOF \<or>
               b \<noteq> [] \<and> e = ErrUnexpectedEOF \<and> length b < 2 ^ unat (drop_bit 6 (hd b))"
  proof (cases "Parse b")
    case (Inl e)
    then show ?thesis
      using Parse_fails[OF Inl] Parse_size(2)[OF _ Inl] by (cases b; cases e) (auto simp: enc_size_def)
  next
    case (Inr a)
    then show ?thesis using Parse_bounds[of b "fst a" "snd a"] by (cases a) simp
  qed
qed

end
