(* ===== verification/Quic_Protocol.thy ===== *)
theory Quic_Protocol
  imports Quic_Varint "HOL-Library.Signed_Division"
begin

text \<open>
  Numbers and small types of QUIC (\<open>quic-go/internal/protocol\<close>): truncated packet numbers, stream
  identifiers, connection identifiers, encryption levels, versions.

  Packet numbers, stream numbers and byte counts are the \<open>int64\<close> values of the source, here
  integers; the conversions between them and \<open>uint64\<close> are \<open>to_u64\<close> and \<open>to_i64\<close>.
  The main fact is that a receiver gets a packet number back from its truncated form when the
  sender has chosen the length with one of the two functions of the source.
\<close>

section \<open>Durations\<close>

text \<open>A duration is a number of nanoseconds.\<close>

definition Microsecond :: int where "Microsecond = 1000"

definition Millisecond :: int where "Millisecond = 1000000"

section \<open>Conversions\<close>

definition to_u64 :: "int \<Rightarrow> u64" where
  "to_u64 n = word_of_int n"

definition to_i64 :: "u64 \<Rightarrow> int" where
  "to_i64 w = sint w"

lemma uint_in_range: "in_range i \<Longrightarrow> uint i < 2 ^ 62"
  by (simp only: le_maxVarInt)

lemma to_i64_in_range: "in_range w \<Longrightarrow> to_i64 w = uint w"
proof -
  assume i: "in_range w"
  have a: "uint w < 2 ^ 63" using uint_in_range[OF i] by simp
  have "- (2 ^ 63) \<le> uint w" by (rule order_trans[OF _ uint_nonnegative]) simp
  then show ?thesis using a by (simp only: to_i64_def sint_uint) (rule signed_take_bit_int_eq_self, auto)
qed

lemma to_i64_bounds: "in_range w \<Longrightarrow> 0 \<le> to_i64 w \<and> to_i64 w < 2 ^ 62"
  using uint_in_range[of w] by (simp add: to_i64_in_range)

lemma uint_to_u64: "0 \<le> n \<Longrightarrow> n < 2 ^ 64 \<Longrightarrow> uint (to_u64 n) = n"
  by (simp add: to_u64_def uint_word_of_int)

lemma to_u64_in_range: "0 \<le> n \<Longrightarrow> n < 2 ^ 62 \<Longrightarrow> in_range (to_u64 n)"
  unfolding le_maxVarInt by (subst uint_to_u64) auto

lemma to_i64_to_u64: "0 \<le> n \<Longrightarrow> n < 2 ^ 62 \<Longrightarrow> to_i64 (to_u64 n) = n"
  using uint_to_u64[of n] by (simp add: to_i64_in_range[OF to_u64_in_range])

lemma to_u64_to_i64: "to_u64 (to_i64 w) = w"
  by (simp add: to_u64_def to_i64_def)

section \<open>Packet numbers\<close>

definition InvalidPacketNumber :: int where "InvalidPacketNumber = -1"

definition DecodePacketNumber :: "nat \<Rightarrow> int \<Rightarrow> int \<Rightarrow> int" where
  "DecodePacketNumber len largest truncated =
     (let expected = largest + 1; win = 2 ^ (len * 8); hwin = win div 2; mask = win - 1;
          candidate = (expected AND NOT mask) OR truncated
      in if candidate \<le> expected - hwin \<and> candidate < 2 ^ 62 - win then candidate + win
         else if candidate > expected + hwin \<and> candidate \<ge> win then candidate - win
         else candidate)"

definition numUnacked :: "int \<Rightarrow> int \<Rightarrow> int" where
  "numUnacked pn largestAcked =
     (if largestAcked = InvalidPacketNumber then pn + 1 else pn - largestAcked)"

definition PacketNumberLengthForHeader :: "int \<Rightarrow> int \<Rightarrow> nat" where
  "PacketNumberLengthForHeader pn largestAcked =
     (let n = numUnacked pn largestAcked
      in if n < 2 ^ 15 then 2 else if n < 2 ^ 23 then 3 else 4)"

definition PacketNumberLengthForHeaderChrome :: "int \<Rightarrow> int \<Rightarrow> int \<Rightarrow> nat" where
  "PacketNumberLengthForHeaderChrome pn largestAcked cwndPackets =
     (let delta = max (numUnacked pn largestAcked) cwndPackets
      in if delta < 2 ^ 8 div 4 then 1 else if delta < 2 ^ 16 div 4 then 2 else 4)"

text \<open>
  A truncated number is decoded correctly if the full number is within half a window of the
  number expected next.
\<close>

lemma mask_split:
  fixes e :: int
  assumes "0 \<le> t" "t < 2 ^ k"
  shows "(e AND NOT (2 ^ k - 1)) OR t = 2 ^ k * (e div 2 ^ k) + t"
proof -
  have m: "(2::int) ^ k - 1 = mask k" by (simp add: mask_eq_exp_minus_1)
  have a: "e AND NOT (2 ^ k - 1) = push_bit k (drop_bit k e)"
    unfolding m by (rule bit_eqI) (auto simp: bit_simps)
  have t: "take_bit k t = t" using assms by (simp add: take_bit_int_eq_self)
  have "push_bit k (drop_bit k e) + t = push_bit k (drop_bit k e) OR t"
  proof (rule disjunctive_add)
    fix n show "\<not> bit (push_bit k (drop_bit k e)) n \<or> \<not> bit t n"
      by (subst t[symmetric]) (auto simp: bit_simps)
  qed
  then show ?thesis unfolding a by (simp add: push_bit_eq_mult drop_bit_eq_div mult.commute)
qed

lemma decode_in_window:
  assumes "0 \<le> pn" "pn < 2 ^ 62" "len \<in> {1, 2, 3, 4}"
    and lo: "largest + 1 - 2 ^ (len * 8) div 2 < pn" and hi: "pn \<le> largest + 1 + 2 ^ (len * 8) div 2"
  shows "DecodePacketNumber len largest (pn mod 2 ^ (len * 8)) = pn"
proof -
  define w where "w = (2::int) ^ (len * 8)"
  define h where "h = w div 2"
  have w: "w > 0" "w = 2 * h" "h > 0" using assms(3) by (auto simp: w_def h_def)
  define q where "q = (largest + 1) div w"
  define p where "p = pn div w"
  have E: "w * q \<le> largest + 1" "largest + 1 < w * q + w"
    using w(1) by (auto simp: q_def minus_mod_eq_mult_div[symmetric] pos_mod_bound)
  have P: "pn = w * p + pn mod w" "0 \<le> pn mod w" "pn mod w < w" using w(1) by (auto simp: p_def)
  have c: "(largest + 1 AND NOT (w - 1)) OR pn mod w = w * q + pn mod w"
    unfolding w_def q_def by (rule mask_split) auto
  note lo' = lo[folded w_def, folded h_def] and hi' = hi[folded w_def, folded h_def]
  have "w * p < w * q + 2 * w" "w * q < w * p + 2 * w" using E P lo' hi' w by linarith+
  then have "w * (p - q) < w * 2" "w * (q - p) < w * 2" by (simp_all add: right_diff_distrib)
  then have "p - q < 2" "q - p < 2" using w(1) by (auto simp: mult_less_cancel_left_pos)
  then consider "p = q" | "p = q + 1" | "p = q - 1" by linarith
  then show ?thesis
  proof cases
    case 1
    then show ?thesis using c P lo' hi' unfolding DecodePacketNumber_def Let_def w_def[symmetric] h_def[symmetric] by simp
  next
    case 2
    then have "w * q + pn mod w = pn - w" using P by (simp add: algebra_simps)
    then show ?thesis using c lo' hi' w assms(2)
      unfolding DecodePacketNumber_def Let_def w_def[symmetric] h_def[symmetric] by simp
  next
    case 3
    then have "q = p + 1" by simp
    then have "w * q = w * p + w" by (simp add: algebra_simps)
    then have "w * q + pn mod w = pn + w" using P(1) by linarith
    then show ?thesis using c lo' hi' w assms(1)
      unfolding DecodePacketNumber_def Let_def w_def[symmetric] h_def[symmetric] by simp
  qed
qed

section \<open>Streams\<close>

datatype Perspective = PerspectiveServer | PerspectiveClient

fun Opposite :: "Perspective \<Rightarrow> Perspective" where
  "Opposite PerspectiveServer = PerspectiveClient"
| "Opposite PerspectiveClient = PerspectiveServer"

datatype StreamType = StreamTypeUni | StreamTypeBidi

definition InvalidStreamID :: int where "InvalidStreamID = -1"
definition InvalidStreamNum :: int where "InvalidStreamNum = -1"
definition MaxStreamCount :: int where "MaxStreamCount = 2 ^ 60"
definition MaxStreamID :: int where "MaxStreamID = 2 ^ 62 - 1"
definition MaxByteCount :: int where "MaxByteCount = 2 ^ 62 - 1"

fun first_stream :: "StreamType \<Rightarrow> Perspective \<Rightarrow> int" where
  "first_stream StreamTypeBidi PerspectiveClient = 0"
| "first_stream StreamTypeBidi PerspectiveServer = 1"
| "first_stream StreamTypeUni PerspectiveClient = 2"
| "first_stream StreamTypeUni PerspectiveServer = 3"

definition StreamID :: "int \<Rightarrow> StreamType \<Rightarrow> Perspective \<Rightarrow> int" where
  "StreamID s stype pers =
     (if s = 0 then InvalidStreamID else wrap64 (first_stream stype pers + wrap64 (4 * wrap64 (s - 1))))"

text \<open>The operators \<open>%\<close> and \<open>/\<close> of the source round towards zero.\<close>

definition StreamInitiator :: "int \<Rightarrow> Perspective" where
  "StreamInitiator sid = (if sid smod 2 = 0 then PerspectiveClient else PerspectiveServer)"

definition StreamTypeOf :: "int \<Rightarrow> StreamType" where
  "StreamTypeOf sid = (if sid smod 4 \<ge> 2 then StreamTypeUni else StreamTypeBidi)"

definition StreamNum :: "int \<Rightarrow> int" where
  "StreamNum sid = sid sdiv 4 + 1"

lemma smod_pos: "0 \<le> a \<Longrightarrow> 0 < b \<Longrightarrow> a smod b = a mod (b::int)"
  by (simp add: smod_mod_positive)

lemma sdiv_pos: "0 \<le> a \<Longrightarrow> 0 < b \<Longrightarrow> a sdiv b = a div (b::int)"
  by (auto simp: signed_divide_int_def sgn_if)

lemma stream_num_pred: "1 \<le> s \<Longrightarrow> s \<le> MaxStreamCount \<Longrightarrow> wrap64 (4 * wrap64 (s - 1)) = 4 * (s - 1)"
  by (simp add: MaxStreamCount_def wrap64_id min_int64_def max_int64_def)

lemma StreamID_eq:
  "1 \<le> s \<Longrightarrow> s \<le> MaxStreamCount \<Longrightarrow> StreamID s t p = first_stream t p + 4 * (s - 1)"
  using stream_num_pred[of s]
  by (cases t; cases p) (auto simp: StreamID_def MaxStreamCount_def wrap64_id min_int64_def max_int64_def)

text \<open>
  (C23) The identifier of a stream and its number, kind and initiator determine each other: for
  every admissible number the three readers give back what the identifier was made of, the
  identifier can be encoded, and every identifier is the one of its own number, kind and initiator.
\<close>

theorem stream_id_roundtrip:
  "(1 \<le> s \<and> s \<le> MaxStreamCount \<longrightarrow>
      (let sid = StreamID s t p
       in StreamNum sid = s \<and> StreamTypeOf sid = t \<and> StreamInitiator sid = p \<and>
          0 \<le> sid \<and> sid \<le> MaxStreamID)) \<and>
   (0 \<le> sid \<and> sid \<le> MaxStreamID \<longrightarrow>
      StreamID (StreamNum sid) (StreamTypeOf sid) (StreamInitiator sid) = sid)"
proof (intro conjI impI)
  assume s: "1 \<le> s \<and> s \<le> MaxStreamCount"
  then show "let sid = StreamID s t p
       in StreamNum sid = s \<and> StreamTypeOf sid = t \<and> StreamInitiator sid = p \<and>
          0 \<le> sid \<and> sid \<le> MaxStreamID"
    unfolding Let_def
  proof -
    define f where "f = first_stream t p"
    define sid where "sid = StreamID s t p"
    have sid: "sid = f + 4 * (s - 1)" using s StreamID_eq[of s t p] by (simp add: sid_def f_def)
    have f: "0 \<le> f" "f < 4" "f mod 2 = (if p = PerspectiveClient then 0 else 1)" "2 \<le> f \<longleftrightarrow> t = StreamTypeUni"
      by (cases t; cases p; simp add: f_def)+
    have p: "0 \<le> sid" using sid f(1) s by simp
    have "StreamNum sid = s" using p f(1,2) by (simp add: StreamNum_def sdiv_pos sid)
    moreover have "StreamTypeOf sid = t"
    proof -
      have "sid mod 4 = f" using f(1,2) unfolding sid by presburger
      then show ?thesis using p f(4) by (cases t) (auto simp: StreamTypeOf_def smod_pos)
    qed
    moreover have "StreamInitiator sid = p"
    proof -
      have "sid mod 2 = f mod 2" unfolding sid by presburger
      then show ?thesis using p f(3) by (cases p) (auto simp: StreamInitiator_def smod_pos)
    qed
    moreover have "sid \<le> MaxStreamID"
      using s f(2) by (simp add: sid MaxStreamCount_def MaxStreamID_def)
    ultimately show "StreamNum (StreamID s t p) = s \<and> StreamTypeOf (StreamID s t p) = t \<and>
        StreamInitiator (StreamID s t p) = p \<and> 0 \<le> StreamID s t p \<and> StreamID s t p \<le> MaxStreamID"
      using p by (simp add: sid_def)
  qed
next
  assume sid: "0 \<le> sid \<and> sid \<le> MaxStreamID"
  then have n: "1 \<le> sid div 4 + 1" "sid div 4 + 1 \<le> MaxStreamCount"
    by (auto simp: MaxStreamID_def MaxStreamCount_def)
  have "sid mod 4 = 0 \<or> sid mod 4 = 1 \<or> sid mod 4 = 2 \<or> sid mod 4 = 3" by presburger
  then have "first_stream (StreamTypeOf sid) (StreamInitiator sid) = sid mod 4"
    using sid by (auto simp: StreamTypeOf_def StreamInitiator_def smod_pos) presburger+
  then show "StreamID (StreamNum sid) (StreamTypeOf sid) (StreamInitiator sid) = sid"
    using sid by (simp add: StreamNum_def sdiv_pos StreamID_eq[OF n])
qed

theorem stream_id_roundtrip_witness:
  "(let sid = StreamID 3 StreamTypeUni PerspectiveServer
    in StreamNum sid = 3 \<and> StreamTypeOf sid = StreamTypeUni \<and> StreamInitiator sid = PerspectiveServer \<and>
       0 \<le> sid \<and> sid \<le> MaxStreamID) \<and>
   StreamID (StreamNum 11) (StreamTypeOf 11) (StreamInitiator 11) = 11"
  using stream_id_roundtrip[of 3 StreamTypeUni PerspectiveServer 11] by (simp add: MaxStreamCount_def MaxStreamID_def)

section \<open>Connection identifiers, encryption levels, versions\<close>

text \<open>
  A connection identifier is an array of 20 bytes and a length; the model is the part of the
  array in use. The bytes after it are zero, so that the equality of the source is the one of
  the model.
\<close>

type_synonym ConnectionID = bytes

definition maxConnectionIDLen :: nat where "maxConnectionIDLen = 20"

definition ParseConnectionID :: "bytes \<Rightarrow> ConnectionID outcome" where
  "ParseConnectionID b = (if length b > maxConnectionIDLen then Panic else Done b)"

datatype EncryptionLevel = EncryptionInitial | EncryptionHandshake | Encryption0RTT | Encryption1RTT

type_synonym Version = "32 word"

definition Version1 :: Version where "Version1 = 1"
definition Version2 :: Version where "Version2 = 0x6b3343cf"

definition SupportedVersions :: "Version list" where "SupportedVersions = [Version1, Version2]"

definition IsSupportedVersion :: "Version list \<Rightarrow> Version \<Rightarrow> bool" where
  "IsSupportedVersion supported v = List.member supported v"

definition IsValidVersion :: "Version \<Rightarrow> bool" where
  "IsValidVersion v \<longleftrightarrow> v = Version1 \<or> IsSupportedVersion SupportedVersions v"

fun ChooseSupportedVersion :: "Version list \<Rightarrow> Version list \<Rightarrow> Version option" where
  "ChooseSupportedVersion [] theirs = None"
| "ChooseSupportedVersion (v # ours) theirs =
     (if List.member theirs v then Some v else ChooseSupportedVersion ours theirs)"

text \<open>The random bits of a reserved version and the position it is put at are arguments.\<close>

definition generateReservedVersion :: "32 word \<Rightarrow> Version" where
  "generateReservedVersion r = (r OR 0x0a0a0a0a) AND 0xfafafafa"

definition GetGreasedVersions :: "32 word \<Rightarrow> nat \<Rightarrow> Version list \<Rightarrow> Version list" where
  "GetGreasedVersions r pos supported =
     (let randPos = pos mod (length supported + 1)
      in take randPos supported @ [generateReservedVersion r] @ drop randPos supported)"

datatype KeyPhaseBit = KeyPhaseUndefined | KeyPhaseZero | KeyPhaseOne

definition KeyPhase_Bit :: "u64 \<Rightarrow> KeyPhaseBit" where
  "KeyPhase_Bit p = (if p mod 2 = 0 then KeyPhaseZero else KeyPhaseOne)"

section \<open>Truncation and recovery\<close>

text \<open>
  (C22) A receiver recovers the packet number from its truncated form, when the sender has
  chosen the length of the truncated number from the largest packet number it knows to be
  acknowledged, in either of the two ways: the receiver has at least that packet, may have later
  ones as long as the packet at hand is not half a window behind, and less than \<open>2^31\<close> packets
  are unacknowledged.
\<close>

theorem packet_number_recovered:
  assumes "0 \<le> pn" "pn < 2 ^ 62" "-1 \<le> largestAcked" "largestAcked < pn"
    and "largestAcked \<le> largest" "numUnacked pn largestAcked < 2 ^ 31"
    and "len = PacketNumberLengthForHeader pn largestAcked \<or>
         len = PacketNumberLengthForHeaderChrome pn largestAcked cwnd"
    and "largest + 1 < pn + 2 ^ (8 * len - 1)"
  shows "DecodePacketNumber len largest (pn mod 2 ^ (len * 8)) = pn \<and> len \<in> {1, 2, 3, 4}"
proof
  have u: "numUnacked pn largestAcked \<ge> pn - largestAcked"
    using assms(3) by (auto simp: numUnacked_def InvalidPacketNumber_def)
  show l: "len \<in> {1, 2, 3, 4}"
    using assms(7) by (auto simp: PacketNumberLengthForHeader_def PacketNumberLengthForHeaderChrome_def Let_def split: if_split_asm)
  have h: "(2::int) ^ (len * 8) div 2 = 2 ^ (8 * len - 1)" using l by auto
  have "numUnacked pn largestAcked < 2 ^ (8 * len - 1)"
    using assms(6,7)
    by (auto simp: PacketNumberLengthForHeader_def PacketNumberLengthForHeaderChrome_def Let_def split: if_split_asm)
  then show "DecodePacketNumber len largest (pn mod 2 ^ (len * 8)) = pn"
    using assms u l by (intro decode_in_window) (auto simp: h)
qed

theorem packet_number_recovered_witness:
  "DecodePacketNumber 2 0xa82f30ea (0xa82f9b32 mod 2 ^ (2 * 8)) = 0xa82f9b32 \<and> (2::nat) \<in> {1, 2, 3, 4}"
  by (rule packet_number_recovered[where largestAcked = "0xa82f30ea" and cwnd = 0])
     (simp_all add: PacketNumberLengthForHeader_def numUnacked_def InvalidPacketNumber_def)

end
