(* ===== verification/Quic_Frames.thy ===== *)
theory Quic_Frames
  imports Quic_Protocol
begin

text \<open>
  The frames of QUIC (\<open>quic-go/internal/wire/*_frame.go\<close>) except ACK: their structs, and for each
  of them the parser, \<open>Append\<close> and \<open>Length\<close>; the splitting of STREAM and CRYPTO frames.

  The byte counts and stream numbers are the \<open>int64\<close> values of the structs, the numbers on the
  wire 64-bit words. A parser gets the slice after the frame type and returns the frame with the
  number of bytes consumed. The idiom of the source, to parse a number, to return the error with
  an unexpected end of the data replaced by \<open>EOF\<close>, and to go on after it, is \<open>varint\<close> with the
  rest of the parser as its argument. A sequence of calls to \<open>quicvarint.Append\<close> is
  \<open>append_all\<close>, a sum of calls to \<open>quicvarint.Len\<close> is \<open>add_lens\<close>.

  The contract of the kinds of frames is stated and proved in \<open>Quic_Frame_Laws\<close>.
\<close>

unbundle bit_operations_syntax

datatype frame_error =
    IO io_error
  | TokenEmpty
  | TooManyStreams
  | ReliableSizeTooLarge
  | RetirePriorToTooLarge
  | ZeroLengthConnectionID
  | InvalidConnectionIDLen
  | StreamDataOverflow
  | EmptyStreamFrame
  | InvalidFirstAckRange
  | InvalidAckRanges
  | UnknownFrameType
  | FrameNotAllowed

section \<open>Idioms\<close>

definition replaceUnexpectedEOF :: "io_error \<Rightarrow> io_error" where
  "replaceUnexpectedEOF e = (if e = ErrUnexpectedEOF then EOF else e)"

definition varint :: "bytes \<Rightarrow> (u64 \<Rightarrow> bytes \<Rightarrow> frame_error + 'a) \<Rightarrow> frame_error + 'a" where
  "varint b k = (case Parse b of Inl e \<Rightarrow> Inl (IO (replaceUnexpectedEOF e)) | Inr (v, l) \<Rightarrow> k v (drop l b))"

fun append_all :: "bytes \<Rightarrow> u64 list \<Rightarrow> bytes outcome" where
  "append_all b [] = Done b"
| "append_all b (v # vs) = bind_outcome (Append b v) (\<lambda>b. append_all b vs)"

fun add_lens :: "int \<Rightarrow> u64 list \<Rightarrow> int outcome" where
  "add_lens n [] = Done n"
| "add_lens n (v # vs) = bind_outcome (Len v) (\<lambda>l. add_lens (n + int l) vs)"

definition consumed :: "bytes \<Rightarrow> bytes \<Rightarrow> int" where
  "consumed start b = int (length start) - int (length b)"

abbreviation len64 :: "bytes \<Rightarrow> u64" where
  "len64 b \<equiv> to_u64 (int (length b))"

section \<open>Frame types\<close>

type_synonym FrameType = u64

definition FrameTypePing :: FrameType where "FrameTypePing = 0x1"
definition FrameTypeAck :: FrameType where "FrameTypeAck = 0x2"
definition FrameTypeAckECN :: FrameType where "FrameTypeAckECN = 0x3"
definition FrameTypeResetStream :: FrameType where "FrameTypeResetStream = 0x4"
definition FrameTypeStopSending :: FrameType where "FrameTypeStopSending = 0x5"
definition FrameTypeCrypto :: FrameType where "FrameTypeCrypto = 0x6"
definition FrameTypeNewToken :: FrameType where "FrameTypeNewToken = 0x7"
definition FrameTypeMaxData :: FrameType where "FrameTypeMaxData = 0x10"
definition FrameTypeMaxStreamData :: FrameType where "FrameTypeMaxStreamData = 0x11"
definition FrameTypeBidiMaxStreams :: FrameType where "FrameTypeBidiMaxStreams = 0x12"
definition FrameTypeUniMaxStreams :: FrameType where "FrameTypeUniMaxStreams = 0x13"
definition FrameTypeDataBlocked :: FrameType where "FrameTypeDataBlocked = 0x14"
definition FrameTypeStreamDataBlocked :: FrameType where "FrameTypeStreamDataBlocked = 0x15"
definition FrameTypeBidiStreamBlocked :: FrameType where "FrameTypeBidiStreamBlocked = 0x16"
definition FrameTypeUniStreamBlocked :: FrameType where "FrameTypeUniStreamBlocked = 0x17"
definition FrameTypeNewConnectionID :: FrameType where "FrameTypeNewConnectionID = 0x18"
definition FrameTypeRetireConnectionID :: FrameType where "FrameTypeRetireConnectionID = 0x19"
definition FrameTypePathChallenge :: FrameType where "FrameTypePathChallenge = 0x1a"
definition FrameTypePathResponse :: FrameType where "FrameTypePathResponse = 0x1b"
definition FrameTypeConnectionClose :: FrameType where "FrameTypeConnectionClose = 0x1c"
definition FrameTypeApplicationClose :: FrameType where "FrameTypeApplicationClose = 0x1d"
definition FrameTypeHandshakeDone :: FrameType where "FrameTypeHandshakeDone = 0x1e"
definition FrameTypeResetStreamAt :: FrameType where "FrameTypeResetStreamAt = 0x24"
definition FrameTypeAckFrequency :: FrameType where "FrameTypeAckFrequency = 0xaf"
definition FrameTypeImmediateAck :: FrameType where "FrameTypeImmediateAck = 0x1f"
definition FrameTypeDatagramNoLength :: FrameType where "FrameTypeDatagramNoLength = 0x30"
definition FrameTypeDatagramWithLength :: FrameType where "FrameTypeDatagramWithLength = 0x31"

lemmas frame_type_defs =
  FrameTypePing_def FrameTypeAck_def FrameTypeAckECN_def FrameTypeResetStream_def
  FrameTypeStopSending_def FrameTypeCrypto_def FrameTypeNewToken_def FrameTypeMaxData_def
  FrameTypeMaxStreamData_def FrameTypeBidiMaxStreams_def FrameTypeUniMaxStreams_def
  FrameTypeDataBlocked_def FrameTypeStreamDataBlocked_def FrameTypeBidiStreamBlocked_def
  FrameTypeUniStreamBlocked_def FrameTypeNewConnectionID_def FrameTypeRetireConnectionID_def
  FrameTypePathChallenge_def FrameTypePathResponse_def FrameTypeConnectionClose_def
  FrameTypeApplicationClose_def FrameTypeHandshakeDone_def FrameTypeResetStreamAt_def
  FrameTypeAckFrequency_def FrameTypeImmediateAck_def FrameTypeDatagramNoLength_def
  FrameTypeDatagramWithLength_def

definition IsStreamFrameType :: "FrameType \<Rightarrow> bool" where
  "IsStreamFrameType t \<longleftrightarrow> t \<ge> 0x8 \<and> t \<le> 0xf"

definition isValidRFC9000 :: "FrameType \<Rightarrow> bool" where
  "isValidRFC9000 t \<longleftrightarrow> t \<le> 0x1e"

definition IsAckFrameType :: "FrameType \<Rightarrow> bool" where
  "IsAckFrameType t \<longleftrightarrow> t = FrameTypeAck \<or> t = FrameTypeAckECN"

definition IsDatagramFrameType :: "FrameType \<Rightarrow> bool" where
  "IsDatagramFrameType t \<longleftrightarrow> t = FrameTypeDatagramNoLength \<or> t = FrameTypeDatagramWithLength"

fun isAllowedAtEncLevel :: "FrameType \<Rightarrow> EncryptionLevel \<Rightarrow> bool" where
  "isAllowedAtEncLevel t EncryptionInitial =
     List.member [FrameTypeCrypto, FrameTypeAck, FrameTypeAckECN, FrameTypeConnectionClose, FrameTypePing] t"
| "isAllowedAtEncLevel t EncryptionHandshake =
     List.member [FrameTypeCrypto, FrameTypeAck, FrameTypeAckECN, FrameTypeConnectionClose, FrameTypePing] t"
| "isAllowedAtEncLevel t Encryption0RTT =
     (\<not> List.member [FrameTypeCrypto, FrameTypeAck, FrameTypeAckECN, FrameTypeConnectionClose,
        FrameTypeNewToken, FrameTypePathResponse, FrameTypeRetireConnectionID] t)"
| "isAllowedAtEncLevel t Encryption1RTT = True"

section \<open>Frames with one or two numbers\<close>

record DataBlockedFrame =
  db_MaximumData :: int

definition parseDataBlockedFrame :: "bytes \<Rightarrow> frame_error + DataBlockedFrame \<times> int" where
  "parseDataBlockedFrame b = varint b (\<lambda>offset r. Inr (\<lparr> db_MaximumData = to_i64 offset \<rparr>, consumed b r))"

definition DataBlockedFrame_Append :: "bytes \<Rightarrow> DataBlockedFrame \<Rightarrow> bytes outcome" where
  "DataBlockedFrame_Append b f = append_all (b @ [ucast FrameTypeDataBlocked]) [to_u64 (db_MaximumData f)]"

definition DataBlockedFrame_Length :: "DataBlockedFrame \<Rightarrow> int outcome" where
  "DataBlockedFrame_Length f = add_lens 1 [to_u64 (db_MaximumData f)]"

record RetireConnectionIDFrame =
  rc_SequenceNumber :: u64

definition parseRetireConnectionIDFrame :: "bytes \<Rightarrow> frame_error + RetireConnectionIDFrame \<times> int" where
  "parseRetireConnectionIDFrame b = varint b (\<lambda>s r. Inr (\<lparr> rc_SequenceNumber = s \<rparr>, consumed b r))"

definition RetireConnectionIDFrame_Append :: "bytes \<Rightarrow> RetireConnectionIDFrame \<Rightarrow> bytes outcome" where
  "RetireConnectionIDFrame_Append b f = append_all (b @ [ucast FrameTypeRetireConnectionID]) [rc_SequenceNumber f]"

definition RetireConnectionIDFrame_Length :: "RetireConnectionIDFrame \<Rightarrow> int outcome" where
  "RetireConnectionIDFrame_Length f = add_lens 1 [rc_SequenceNumber f]"

record MaxDataFrame =
  md_MaximumData :: int

definition parseMaxDataFrame :: "bytes \<Rightarrow> frame_error + MaxDataFrame \<times> int" where
  "parseMaxDataFrame b = varint b (\<lambda>byteOffset r. Inr (\<lparr> md_MaximumData = to_i64 byteOffset \<rparr>, consumed b r))"

definition MaxDataFrame_Append :: "bytes \<Rightarrow> MaxDataFrame \<Rightarrow> bytes outcome" where
  "MaxDataFrame_Append b f = append_all (b @ [ucast FrameTypeMaxData]) [to_u64 (md_MaximumData f)]"

definition MaxDataFrame_Length :: "MaxDataFrame \<Rightarrow> int outcome" where
  "MaxDataFrame_Length f = add_lens 1 [to_u64 (md_MaximumData f)]"

record StreamDataBlockedFrame =
  sdb_StreamID :: int
  sdb_MaximumStreamData :: int

definition parseStreamDataBlockedFrame :: "bytes \<Rightarrow> frame_error + StreamDataBlockedFrame \<times> int" where
  "parseStreamDataBlockedFrame start = varint start (\<lambda>sid b. varint b (\<lambda>offset r.
     Inr (\<lparr> sdb_StreamID = to_i64 sid, sdb_MaximumStreamData = to_i64 offset \<rparr>,
          consumed start b + consumed b r)))"

definition StreamDataBlockedFrame_Append :: "bytes \<Rightarrow> StreamDataBlockedFrame \<Rightarrow> bytes outcome" where
  "StreamDataBlockedFrame_Append b f =
     append_all (b @ [0x15]) [to_u64 (sdb_StreamID f), to_u64 (sdb_MaximumStreamData f)]"

definition StreamDataBlockedFrame_Length :: "StreamDataBlockedFrame \<Rightarrow> int outcome" where
  "StreamDataBlockedFrame_Length f =
     add_lens 1 [to_u64 (sdb_StreamID f), to_u64 (sdb_MaximumStreamData f)]"

record MaxStreamDataFrame =
  msd_StreamID :: int
  msd_MaximumStreamData :: int

definition parseMaxStreamDataFrame :: "bytes \<Rightarrow> frame_error + MaxStreamDataFrame \<times> int" where
  "parseMaxStreamDataFrame start = varint start (\<lambda>sid b. varint b (\<lambda>offset b.
     Inr (\<lparr> msd_StreamID = to_i64 sid, msd_MaximumStreamData = to_i64 offset \<rparr>, consumed start b)))"

definition MaxStreamDataFrame_Append :: "bytes \<Rightarrow> MaxStreamDataFrame \<Rightarrow> bytes outcome" where
  "MaxStreamDataFrame_Append b f =
     append_all (b @ [ucast FrameTypeMaxStreamData]) [to_u64 (msd_StreamID f), to_u64 (msd_MaximumStreamData f)]"

definition MaxStreamDataFrame_Length :: "MaxStreamDataFrame \<Rightarrow> int outcome" where
  "MaxStreamDataFrame_Length f = add_lens 1 [to_u64 (msd_StreamID f), to_u64 (msd_MaximumStreamData f)]"

record StopSendingFrame =
  ss_StreamID :: int
  ss_ErrorCode :: u64

definition parseStopSendingFrame :: "bytes \<Rightarrow> frame_error + StopSendingFrame \<times> int" where
  "parseStopSendingFrame start = varint start (\<lambda>streamID b. varint b (\<lambda>errorCode b.
     Inr (\<lparr> ss_StreamID = to_i64 streamID, ss_ErrorCode = errorCode \<rparr>, consumed start b)))"

definition StopSendingFrame_Append :: "bytes \<Rightarrow> StopSendingFrame \<Rightarrow> bytes outcome" where
  "StopSendingFrame_Append b f =
     append_all (b @ [ucast FrameTypeStopSending]) [to_u64 (ss_StreamID f), ss_ErrorCode f]"

definition StopSendingFrame_Length :: "StopSendingFrame \<Rightarrow> int outcome" where
  "StopSendingFrame_Length f = add_lens 1 [to_u64 (ss_StreamID f), ss_ErrorCode f]"

section \<open>Stream counts\<close>

record MaxStreamsFrame =
  ms_Type :: StreamType
  ms_MaxStreamNum :: int

text \<open>The zero value of a stream type is \<open>StreamTypeUni\<close>.\<close>

definition parseMaxStreamsFrame :: "bytes \<Rightarrow> FrameType \<Rightarrow> frame_error + MaxStreamsFrame \<times> int" where
  "parseMaxStreamsFrame b typ =
     (let t = (if typ = FrameTypeBidiMaxStreams then StreamTypeBidi else StreamTypeUni)
      in varint b (\<lambda>streamID r.
           if to_i64 streamID > MaxStreamCount then Inl TooManyStreams
           else Inr (\<lparr> ms_Type = t, ms_MaxStreamNum = to_i64 streamID \<rparr>, consumed b r)))"

definition MaxStreamsFrame_Append :: "bytes \<Rightarrow> MaxStreamsFrame \<Rightarrow> bytes outcome" where
  "MaxStreamsFrame_Append b f =
     append_all (b @ [case ms_Type f of StreamTypeBidi \<Rightarrow> ucast FrameTypeBidiMaxStreams
                                      | StreamTypeUni \<Rightarrow> ucast FrameTypeUniMaxStreams])
       [to_u64 (ms_MaxStreamNum f)]"

definition MaxStreamsFrame_Length :: "MaxStreamsFrame \<Rightarrow> int outcome" where
  "MaxStreamsFrame_Length f = add_lens 1 [to_u64 (ms_MaxStreamNum f)]"

record StreamsBlockedFrame =
  sb_Type :: StreamType
  sb_StreamLimit :: int

definition parseStreamsBlockedFrame :: "bytes \<Rightarrow> FrameType \<Rightarrow> frame_error + StreamsBlockedFrame \<times> int" where
  "parseStreamsBlockedFrame b typ =
     (let t = (if typ = FrameTypeBidiStreamBlocked then StreamTypeBidi else StreamTypeUni)
      in varint b (\<lambda>streamLimit r.
           if to_i64 streamLimit > MaxStreamCount then Inl TooManyStreams
           else Inr (\<lparr> sb_Type = t, sb_StreamLimit = to_i64 streamLimit \<rparr>, consumed b r)))"

definition StreamsBlockedFrame_Append :: "bytes \<Rightarrow> StreamsBlockedFrame \<Rightarrow> bytes outcome" where
  "StreamsBlockedFrame_Append b f =
     append_all (b @ [case sb_Type f of StreamTypeBidi \<Rightarrow> ucast FrameTypeBidiStreamBlocked
                                      | StreamTypeUni \<Rightarrow> ucast FrameTypeUniStreamBlocked])
       [to_u64 (sb_StreamLimit f)]"

definition StreamsBlockedFrame_Length :: "StreamsBlockedFrame \<Rightarrow> int outcome" where
  "StreamsBlockedFrame_Length f = add_lens 1 [to_u64 (sb_StreamLimit f)]"

section \<open>Path validation\<close>

record PathChallengeFrame =
  pc_Data :: bytes

definition parsePathChallengeFrame :: "bytes \<Rightarrow> frame_error + PathChallengeFrame \<times> int" where
  "parsePathChallengeFrame b = (if length b < 8 then Inl (IO EOF) else Inr (\<lparr> pc_Data = take 8 b \<rparr>, 8))"

definition PathChallengeFrame_Append :: "bytes \<Rightarrow> PathChallengeFrame \<Rightarrow> bytes outcome" where
  "PathChallengeFrame_Append b f = Done (b @ [ucast FrameTypePathChallenge] @ pc_Data f)"

definition PathChallengeFrame_Length :: "PathChallengeFrame \<Rightarrow> int outcome" where
  "PathChallengeFrame_Length f = Done (1 + 8)"

record PathResponseFrame =
  pr_Data :: bytes

definition parsePathResponseFrame :: "bytes \<Rightarrow> frame_error + PathResponseFrame \<times> int" where
  "parsePathResponseFrame b = (if length b < 8 then Inl (IO EOF) else Inr (\<lparr> pr_Data = take 8 b \<rparr>, 8))"

definition PathResponseFrame_Append :: "bytes \<Rightarrow> PathResponseFrame \<Rightarrow> bytes outcome" where
  "PathResponseFrame_Append b f = Done (b @ [ucast FrameTypePathResponse] @ pr_Data f)"

definition PathResponseFrame_Length :: "PathResponseFrame \<Rightarrow> int outcome" where
  "PathResponseFrame_Length f = Done (1 + 8)"

section \<open>Tokens, errors, resets\<close>

record NewTokenFrame =
  nt_Token :: bytes

definition parseNewTokenFrame :: "bytes \<Rightarrow> frame_error + NewTokenFrame \<times> int" where
  "parseNewTokenFrame start = varint start (\<lambda>tokenLen b.
     if tokenLen = 0 then Inl TokenEmpty
     else if int (length b) < uint tokenLen then Inl (IO EOF)
     else Inr (\<lparr> nt_Token = take (unat tokenLen) b \<rparr>, consumed start b + uint tokenLen))"

definition NewTokenFrame_Append :: "bytes \<Rightarrow> NewTokenFrame \<Rightarrow> bytes outcome" where
  "NewTokenFrame_Append b f =
     bind_outcome (append_all (b @ [ucast FrameTypeNewToken]) [len64 (nt_Token f)]) (\<lambda>b. Done (b @ nt_Token f))"

definition NewTokenFrame_Length :: "NewTokenFrame \<Rightarrow> int outcome" where
  "NewTokenFrame_Length f =
     bind_outcome (add_lens 1 [len64 (nt_Token f)]) (\<lambda>n. Done (n + int (length (nt_Token f))))"

record AckFrequencyFrame =
  af_SequenceNumber :: u64
  af_AckElicitingThreshold :: u64
  af_RequestMaxAckDelay :: int
  af_ReorderingThreshold :: int

definition parseAckFrequencyFrame :: "bytes \<Rightarrow> frame_error + AckFrequencyFrame \<times> int" where
  "parseAckFrequencyFrame start =
     varint start (\<lambda>sq b. varint b (\<lambda>aeth b. varint b (\<lambda>mad b.
       let d = wrap64 (to_i64 mad * Microsecond); maxAckDelay = (if d < 0 then max_int64 else d)
       in varint b (\<lambda>rth b.
            Inr (\<lparr> af_SequenceNumber = sq, af_AckElicitingThreshold = aeth,
                   af_RequestMaxAckDelay = maxAckDelay, af_ReorderingThreshold = to_i64 rth \<rparr>,
                 consumed start b)))))"

definition AckFrequencyFrame_Append :: "bytes \<Rightarrow> AckFrequencyFrame \<Rightarrow> bytes outcome" where
  "AckFrequencyFrame_Append b f =
     append_all b [FrameTypeAckFrequency, af_SequenceNumber f, af_AckElicitingThreshold f,
                   to_u64 (af_RequestMaxAckDelay f sdiv Microsecond), to_u64 (af_ReorderingThreshold f)]"

definition AckFrequencyFrame_Length :: "AckFrequencyFrame \<Rightarrow> int outcome" where
  "AckFrequencyFrame_Length f =
     add_lens 2 [af_SequenceNumber f, af_AckElicitingThreshold f,
                 to_u64 (af_RequestMaxAckDelay f sdiv Microsecond), to_u64 (af_ReorderingThreshold f)]"

record ConnectionCloseFrame =
  cc_IsApplicationError :: bool
  cc_ErrorCode :: u64
  cc_FrameType :: u64
  cc_ReasonPhrase :: bytes

definition parseConnectionCloseFrame :: "bytes \<Rightarrow> FrameType \<Rightarrow> frame_error + ConnectionCloseFrame \<times> int" where
  "parseConnectionCloseFrame start typ =
     (let app = (typ = FrameTypeApplicationClose);
          reason = (\<lambda>ec ft b. varint b (\<lambda>reasonPhraseLen b.
            if uint reasonPhraseLen > int (length b) then Inl (IO EOF)
            else Inr (\<lparr> cc_IsApplicationError = app, cc_ErrorCode = ec, cc_FrameType = ft,
                        cc_ReasonPhrase = take (unat reasonPhraseLen) b \<rparr>,
                      consumed start b + uint reasonPhraseLen)))
      in varint start (\<lambda>ec b. if \<not> app then varint b (\<lambda>ft b. reason ec ft b) else reason ec 0 b))"

definition ConnectionCloseFrame_Length :: "ConnectionCloseFrame \<Rightarrow> int outcome" where
  "ConnectionCloseFrame_Length f =
     bind_outcome (add_lens 1 [cc_ErrorCode f, len64 (cc_ReasonPhrase f)]) (\<lambda>n.
       add_lens (n + int (length (cc_ReasonPhrase f))) (if \<not> cc_IsApplicationError f then [cc_FrameType f] else []))"

definition ConnectionCloseFrame_Append :: "bytes \<Rightarrow> ConnectionCloseFrame \<Rightarrow> bytes outcome" where
  "ConnectionCloseFrame_Append b f =
     bind_outcome
       (append_all (b @ [if cc_IsApplicationError f then ucast FrameTypeApplicationClose
                         else ucast FrameTypeConnectionClose])
          ([cc_ErrorCode f] @ (if \<not> cc_IsApplicationError f then [cc_FrameType f] else []) @
           [len64 (cc_ReasonPhrase f)]))
       (\<lambda>b. Done (b @ cc_ReasonPhrase f))"

record ResetStreamFrame =
  rs_StreamID :: int
  rs_ErrorCode :: u64
  rs_FinalSize :: int
  rs_ReliableSize :: int

definition parseResetStreamFrame :: "bytes \<Rightarrow> bool \<Rightarrow> frame_error + ResetStreamFrame \<times> int" where
  "parseResetStreamFrame start isResetStreamAt =
     varint start (\<lambda>streamID b. varint b (\<lambda>errorCode b. varint b (\<lambda>finalSize b.
       let finish = (\<lambda>reliableSize b.
         if reliableSize > finalSize then Inl ReliableSizeTooLarge
         else Inr (\<lparr> rs_StreamID = to_i64 streamID, rs_ErrorCode = errorCode,
                     rs_FinalSize = to_i64 finalSize, rs_ReliableSize = to_i64 reliableSize \<rparr>,
                   consumed start b))
       in if isResetStreamAt then varint b finish else finish 0 b)))"

definition ResetStreamFrame_Append :: "bytes \<Rightarrow> ResetStreamFrame \<Rightarrow> bytes outcome" where
  "ResetStreamFrame_Append b f =
     append_all b
       ([if rs_ReliableSize f = 0 then FrameTypeResetStream else FrameTypeResetStreamAt,
         to_u64 (rs_StreamID f), rs_ErrorCode f, to_u64 (rs_FinalSize f)] @
        (if rs_ReliableSize f > 0 then [to_u64 (rs_ReliableSize f)] else []))"

definition ResetStreamFrame_Length :: "ResetStreamFrame \<Rightarrow> int outcome" where
  "ResetStreamFrame_Length f =
     add_lens 1 ((if rs_ReliableSize f > 0 then [to_u64 (rs_ReliableSize f)] else []) @
                 [to_u64 (rs_StreamID f), rs_ErrorCode f, to_u64 (rs_FinalSize f)])"

section \<open>New connection identifiers\<close>

record NewConnectionIDFrame =
  nc_SequenceNumber :: u64
  nc_RetirePriorTo :: u64
  nc_ConnectionID :: ConnectionID
  nc_StatelessResetToken :: bytes

text \<open>
  The parser of connection identifiers panics on a slice that is too long: the frame that is
  returned is inside an outcome.
\<close>

definition parseNewConnectionIDFrame :: "bytes \<Rightarrow> frame_error + NewConnectionIDFrame outcome \<times> int" where
  "parseNewConnectionIDFrame start =
     varint start (\<lambda>sq b. varint b (\<lambda>ret b.
       if ret > sq then Inl RetirePriorToTooLarge
       else case b of [] \<Rightarrow> Inl (IO EOF)
       | l # b \<Rightarrow>
           let connIDLen = unat l in
           if connIDLen = 0 then Inl ZeroLengthConnectionID
           else if connIDLen > maxConnectionIDLen then Inl InvalidConnectionIDLen
           else if length b < connIDLen then Inl (IO EOF)
           else case ParseConnectionID (take connIDLen b) of Panic \<Rightarrow> Inr (Panic, 0)
           | Done c \<Rightarrow>
             let b = drop connIDLen b in
             if length b < 16 then Inl (IO EOF)
             else Inr (Done \<lparr> nc_SequenceNumber = sq, nc_RetirePriorTo = ret,
                              nc_ConnectionID = c, nc_StatelessResetToken = take 16 b \<rparr>,
                       consumed start b + 16)))"

definition NewConnectionIDFrame_Append :: "bytes \<Rightarrow> NewConnectionIDFrame \<Rightarrow> (frame_error + bytes) outcome" where
  "NewConnectionIDFrame_Append b f =
     bind_outcome (append_all (b @ [ucast FrameTypeNewConnectionID]) [nc_SequenceNumber f, nc_RetirePriorTo f])
       (\<lambda>b. if length (nc_ConnectionID f) > maxConnectionIDLen then Done (Inl InvalidConnectionIDLen)
            else Done (Inr (b @ [of_nat (length (nc_ConnectionID f))] @ nc_ConnectionID f @
                            nc_StatelessResetToken f)))"

definition NewConnectionIDFrame_Length :: "NewConnectionIDFrame \<Rightarrow> int outcome" where
  "NewConnectionIDFrame_Length f =
     bind_outcome (add_lens 1 [nc_SequenceNumber f, nc_RetirePriorTo f])
       (\<lambda>n. Done (n + 1 + int (length (nc_ConnectionID f)) + 16))"

section \<open>Datagrams\<close>

record DatagramFrame =
  dg_DataLenPresent :: bool
  dg_Data :: bytes

definition parseDatagramFrame :: "bytes \<Rightarrow> FrameType \<Rightarrow> frame_error + DatagramFrame \<times> int" where
  "parseDatagramFrame start typ =
     (let p = (typ AND 1 > 0)
      in if p then varint start (\<lambda>len b.
             if uint len > int (length b) then Inl (IO EOF)
             else Inr (\<lparr> dg_DataLenPresent = p, dg_Data = take (unat len) b \<rparr>, consumed start b + uint len))
         else Inr (\<lparr> dg_DataLenPresent = p, dg_Data = start \<rparr>, int (length start)))"

definition DatagramFrame_Append :: "bytes \<Rightarrow> DatagramFrame \<Rightarrow> bytes outcome" where
  "DatagramFrame_Append b f =
     bind_outcome (append_all (b @ [if dg_DataLenPresent f then 0x30 XOR 1 else 0x30])
                     (if dg_DataLenPresent f then [len64 (dg_Data f)] else []))
       (\<lambda>b. Done (b @ dg_Data f))"

text \<open>The number of bytes that fit after a header that counts one byte for the length.\<close>

definition fit_data :: "int \<Rightarrow> int \<Rightarrow> bool \<Rightarrow> int outcome" where
  "fit_data headerLen maxSize counted =
     (if headerLen > maxSize then Done 0
      else let maxDataLen = maxSize - headerLen
           in if counted
              then bind_outcome (Len (to_u64 maxDataLen)) (\<lambda>l. Done (if l \<noteq> 1 then maxDataLen - 1 else maxDataLen))
              else Done maxDataLen)"

definition DatagramFrame_MaxDataLen :: "DatagramFrame \<Rightarrow> int \<Rightarrow> int outcome" where
  "DatagramFrame_MaxDataLen f maxSize =
     fit_data (if dg_DataLenPresent f then 2 else 1) maxSize (dg_DataLenPresent f)"

definition DatagramFrame_Length :: "DatagramFrame \<Rightarrow> int outcome" where
  "DatagramFrame_Length f =
     add_lens (1 + int (length (dg_Data f))) (if dg_DataLenPresent f then [len64 (dg_Data f)] else [])"

section \<open>CRYPTO frames\<close>

record CryptoFrame =
  cf_Offset :: int
  cf_Data :: bytes

definition parseCryptoFrame :: "bytes \<Rightarrow> frame_error + CryptoFrame \<times> int" where
  "parseCryptoFrame start = varint start (\<lambda>offset b. varint b (\<lambda>dataLen b.
     if uint dataLen > int (length b) then Inl (IO EOF)
     else Inr (\<lparr> cf_Offset = to_i64 offset, cf_Data = (if dataLen \<noteq> 0 then take (unat dataLen) b else []) \<rparr>,
               consumed start b + uint dataLen)))"

definition CryptoFrame_Append :: "bytes \<Rightarrow> CryptoFrame \<Rightarrow> bytes outcome" where
  "CryptoFrame_Append b f =
     bind_outcome (append_all (b @ [ucast FrameTypeCrypto]) [to_u64 (cf_Offset f), len64 (cf_Data f)])
       (\<lambda>b. Done (b @ cf_Data f))"

definition CryptoFrame_Length :: "CryptoFrame \<Rightarrow> int outcome" where
  "CryptoFrame_Length f =
     bind_outcome (add_lens 1 [to_u64 (cf_Offset f), len64 (cf_Data f)]) (\<lambda>n. Done (n + int (length (cf_Data f))))"

definition CryptoFrame_MaxDataLen :: "CryptoFrame \<Rightarrow> int \<Rightarrow> int outcome" where
  "CryptoFrame_MaxDataLen f maxSize =
     bind_outcome (add_lens 2 [to_u64 (cf_Offset f)]) (\<lambda>headerLen. fit_data headerLen maxSize True)"

text \<open>
  The splitting returns the new frame, whether splitting was required, and the frame that is
  left. A negative length for \<open>make\<close> and an index out of range panic.
\<close>

definition CryptoFrame_MaybeSplitOffFrame ::
    "CryptoFrame \<Rightarrow> int \<Rightarrow> (CryptoFrame option \<times> bool \<times> CryptoFrame) outcome" where
  "CryptoFrame_MaybeSplitOffFrame f maxSize =
     bind_outcome (CryptoFrame_Length f) (\<lambda>len.
       if len \<le> maxSize then Done (None, False, f)
       else bind_outcome (CryptoFrame_MaxDataLen f maxSize) (\<lambda>n.
         if n = 0 then Done (None, True, f)
         else if int (length (cf_Data f)) - n < 0 then Panic
         else Done (Some \<lparr> cf_Offset = cf_Offset f, cf_Data = take (nat n) (cf_Data f) \<rparr>, True,
                    \<lparr> cf_Offset = cf_Offset f + n, cf_Data = drop (nat n) (cf_Data f) \<rparr>)))"

section \<open>STREAM frames\<close>

record StreamFrame =
  sf_StreamID :: int
  sf_Offset :: int
  sf_Data :: bytes
  sf_Fin :: bool
  sf_DataLenPresent :: bool
  sf_fromPool :: bool

definition MinStreamFrameBufferSize :: int where "MinStreamFrameBufferSize = 128"
definition MaxPacketBufferSize :: int where "MaxPacketBufferSize = 1452"

text \<open>
  A frame from the pool has a buffer of the capacity \<open>MaxPacketBufferSize\<close>, which
  \<open>putStreamFrame\<close> checks.
\<close>

definition stream_finish ::
    "bytes \<Rightarrow> bool \<Rightarrow> bool \<Rightarrow> u64 \<Rightarrow> u64 \<Rightarrow> nat \<Rightarrow> bytes \<Rightarrow> frame_error + StreamFrame \<times> int" where
  "stream_finish start fin hasDataLen streamID offset dataLen b =
     (if int dataLen \<ge> MinStreamFrameBufferSize \<and> int dataLen > MaxPacketBufferSize then Inl (IO EOF)
      else if to_i64 offset + int dataLen > MaxByteCount then Inl StreamDataOverflow
      else Inr (\<lparr> sf_StreamID = to_i64 streamID, sf_Offset = to_i64 offset, sf_Data = take dataLen b,
                  sf_Fin = fin, sf_DataLenPresent = hasDataLen,
                  sf_fromPool = (int dataLen \<ge> MinStreamFrameBufferSize) \<rparr>,
                consumed start b + int dataLen))"

definition ParseStreamFrame :: "bytes \<Rightarrow> FrameType \<Rightarrow> frame_error + StreamFrame \<times> int" where
  "ParseStreamFrame start typ =
     (let hasOffset = (typ AND 4 > 0); fin = (typ AND 1 > 0); hasDataLen = (typ AND 2 > 0);
          rest = (\<lambda>streamID offset b.
            if hasDataLen then varint b (\<lambda>dataLen b.
              if uint dataLen > int (length b) then Inl (IO EOF)
              else stream_finish start fin hasDataLen streamID offset (unat dataLen) b)
            else stream_finish start fin hasDataLen streamID offset (length b) b)
      in varint start (\<lambda>streamID b.
           if hasOffset then varint b (\<lambda>offset b. rest streamID offset b)
           else rest streamID 0 b))"

definition StreamFrame_typ :: "StreamFrame \<Rightarrow> byte" where
  "StreamFrame_typ f =
     (let typ = 0x8;
          typ = (if sf_Fin f then typ XOR 1 else typ);
          typ = (if sf_DataLenPresent f then typ XOR 2 else typ)
      in if sf_Offset f \<noteq> 0 then typ XOR 4 else typ)"

definition StreamFrame_Append :: "bytes \<Rightarrow> StreamFrame \<Rightarrow> (frame_error + bytes) outcome" where
  "StreamFrame_Append b f =
     (if sf_Data f = [] \<and> \<not> sf_Fin f then Done (Inl EmptyStreamFrame)
      else bind_outcome
             (append_all (b @ [StreamFrame_typ f])
                ([to_u64 (sf_StreamID f)] @ (if sf_Offset f \<noteq> 0 then [to_u64 (sf_Offset f)] else []) @
                 (if sf_DataLenPresent f then [len64 (sf_Data f)] else [])))
             (\<lambda>b. Done (Inr (b @ sf_Data f))))"

definition StreamFrame_Length :: "StreamFrame \<Rightarrow> int outcome" where
  "StreamFrame_Length f =
     bind_outcome
       (add_lens 1 ([to_u64 (sf_StreamID f)] @ (if sf_Offset f \<noteq> 0 then [to_u64 (sf_Offset f)] else []) @
                    (if sf_DataLenPresent f then [len64 (sf_Data f)] else [])))
       (\<lambda>n. Done (n + int (length (sf_Data f))))"

definition StreamFrame_MaxDataLen :: "StreamFrame \<Rightarrow> int \<Rightarrow> int outcome" where
  "StreamFrame_MaxDataLen f maxSize =
     bind_outcome
       (add_lens 1 ([to_u64 (sf_StreamID f)] @ (if sf_Offset f \<noteq> 0 then [to_u64 (sf_Offset f)] else [])))
       (\<lambda>headerLen. fit_data (if sf_DataLenPresent f then headerLen + 1 else headerLen) maxSize (sf_DataLenPresent f))"

text \<open>
  The data that is left is copied to the buffer of a frame from the pool: it panics if the
  buffer is too small, and if more bytes are to be split off than there are.
\<close>

definition StreamFrame_MaybeSplitOffFrame ::
    "StreamFrame \<Rightarrow> int \<Rightarrow> (StreamFrame option \<times> bool \<times> StreamFrame) outcome" where
  "StreamFrame_MaybeSplitOffFrame f maxSize =
     bind_outcome (StreamFrame_Length f) (\<lambda>len.
       if maxSize \<ge> len then Done (None, False, f)
       else bind_outcome (StreamFrame_MaxDataLen f maxSize) (\<lambda>n.
         if n = 0 then Done (None, True, f)
         else
           let left = int (length (sf_Data f)) - n
           in if left < 0 \<or> left > MaxPacketBufferSize then Panic
              else Done (Some \<lparr> sf_StreamID = sf_StreamID f, sf_Offset = sf_Offset f,
                                sf_Data = take (nat n) (sf_Data f), sf_Fin = False,
                                sf_DataLenPresent = sf_DataLenPresent f, sf_fromPool = sf_fromPool f \<rparr>, True,
                         f\<lparr> sf_Offset := sf_Offset f + n, sf_Data := drop (nat n) (sf_Data f), sf_fromPool := True \<rparr>)))"

section \<open>Facts on the idioms\<close>

lemma varint_enc [simp]: "in_range i \<Longrightarrow> varint (enc i @ r) k = k i r"
  by (simp add: varint_def)

lemma append_all_enc [simp]:
  "list_all in_range vs \<Longrightarrow> append_all b vs = Done (b @ concat (map enc vs))"
  by (induction vs arbitrary: b) auto

lemma add_lens_enc [simp]:
  "list_all in_range vs \<Longrightarrow> add_lens n vs = Done (n + int (length (concat (map enc vs))))"
  by (induction vs arbitrary: n) auto

lemma consumed_simps [simp]:
  "consumed (a @ b) b = int (length a)" "consumed (a @ b @ c) c = int (length a + length b)"
  "consumed (a @ b @ c @ d) d = int (length a + length b + length c)"
  "consumed (a @ b @ c @ d @ e) e = int (length a + length b + length c + length d)"
  by (simp_all add: consumed_def)

lemma enc_byte: "t \<le> maxVarInt1 \<Longrightarrow> enc t = [ucast t]"
  by (simp add: enc_def Append_def)

lemma len64_in_range: "int (length b) < 2 ^ 62 \<Longrightarrow> in_range (len64 b)"
  by (rule to_u64_in_range) auto

lemma unat_len64: "int (length b) < 2 ^ 62 \<Longrightarrow> unat (len64 b) = length b"
  using uint_to_u64[of "int (length b)"] by (simp add: unat_eq_nat_uint)

lemma uint_len64: "int (length b) < 2 ^ 62 \<Longrightarrow> uint (len64 b) = int (length b)"
  by (rule uint_to_u64) auto

lemma varint_within:
  assumes "varint b k = Inr z"
  obtains v l where "Parse b = Inr (v, l)" "k v (drop l b) = Inr z" "in_range v" "l \<le> length b" "0 < l"
proof -
  obtain v l where p: "Parse b = Inr (v, l)" "k v (drop l b) = Inr z"
    using assms by (auto simp: varint_def split: sum.splits)
  then show ?thesis using Parse_bounds[OF p(1)] by (intro that) auto
qed

text \<open>The numbers that fit into a varint.\<close>

definition fits :: "int \<Rightarrow> bool" where
  "fits n \<longleftrightarrow> 0 \<le> n \<and> n < 2 ^ 62"

lemma fits_simps [simp]: "fits n \<Longrightarrow> in_range (to_u64 n)" "fits n \<Longrightarrow> to_i64 (to_u64 n) = n"
  by (auto simp: fits_def to_u64_in_range to_i64_to_u64)

lemma fits_to_i64 [simp]: "in_range w \<Longrightarrow> fits (to_i64 w)"
  using to_i64_bounds[of w] by (simp add: fits_def)

end
