(* ===== verification/Quic_Frame_Laws.thy ===== *)
theory Quic_Frame_Laws
  imports Quic_Frames
begin

text \<open>
  The contract that the kinds of frames of \<open>Quic_Frames\<close> share, and the splitting of frames.

  The locale \<open>frame_codec\<close> is the contract of a kind of frame: a frame that is within the bounds of
  the format is written to as many bytes as \<open>Length\<close> says, the parser reads it back from these
  bytes whatever follows, and it never reads past the end of the slice. It is interpreted for
  every kind of frame. STREAM and DATAGRAM frames without a length take all that is left of the packet, and have
  this contract with nothing following.
\<close>

section \<open>The contract of a kind of frame\<close>

fun ok :: "bytes outcome \<Rightarrow> (frame_error + bytes) outcome" where
  "ok (Done b) = Done (Inr b)"
| "ok Panic = Panic"

locale frame_codec =
  fixes wf :: "'f \<Rightarrow> bool"
    and ftype :: "'f \<Rightarrow> FrameType"
    and parse :: "FrameType \<Rightarrow> bytes \<Rightarrow> frame_error + 'f \<times> int"
    and append :: "bytes \<Rightarrow> 'f \<Rightarrow> (frame_error + bytes) outcome"
    and len :: "'f \<Rightarrow> int outcome"
  assumes ftype_range: "in_range (ftype f)"
    and written: "wf f \<Longrightarrow> \<exists>e. \<forall>b r. append b f = Done (Inr (b @ enc (ftype f) @ e)) \<and>
           len f = Done (int (length (enc (ftype f) @ e))) \<and>
           parse (ftype f) (e @ r) = Inr (f, int (length e))"
    and within: "parse t b = Inr (f, n) \<Longrightarrow> 0 \<le> n \<and> n \<le> int (length b)"
begin

lemma append_extends: "wf f \<Longrightarrow> \<exists>e. append b f = Done (Inr (b @ e)) \<and> len f = Done (int (length e))"
  using written[of f] by blast

lemma decode_encode:
  assumes "wf f"
  obtains e where "append b f = Done (Inr (b @ e))" "Parse (e @ r) = Inr (ftype f, length (enc (ftype f)))"
    "parse (ftype f) (drop (length (enc (ftype f))) (e @ r)) = Inr (f, int (length e - length (enc (ftype f))))"
    "length (enc (ftype f)) \<le> length e" "len f = Done (int (length e))"
proof -
  obtain e where e: "\<And>b r. append b f = Done (Inr (b @ enc (ftype f) @ e)) \<and>
      len f = Done (int (length (enc (ftype f) @ e))) \<and> parse (ftype f) (e @ r) = Inr (f, int (length e))"
    using written[OF assms] by blast
  show ?thesis by (rule that[of "enc (ftype f) @ e"]) (use e ftype_range in auto)
qed

lemma append_injective:
  assumes "wf f" "wf g" "append b f = append c g" "b = c"
  shows "f = g"
proof -
  obtain e where e: "\<And>b r. append b f = Done (Inr (b @ enc (ftype f) @ e)) \<and> parse (ftype f) (e @ r) = Inr (f, int (length e))"
    using written[OF assms(1)] by blast
  obtain d where d: "\<And>b r. append b g = Done (Inr (b @ enc (ftype g) @ d)) \<and> parse (ftype g) (d @ r) = Inr (g, int (length d))"
    using written[OF assms(2)] by blast
  have eq: "enc (ftype f) @ e = enc (ftype g) @ d" using assms(3,4) e[of b] d[of c] by simp
  have "Parse (enc (ftype f) @ e) = Inr (ftype f, length (enc (ftype f)))"
    "Parse (enc (ftype g) @ d) = Inr (ftype g, length (enc (ftype g)))"
    using ftype_range by simp_all
  then have "ftype f = ftype g" using eq by simp
  then show ?thesis using eq e[of b "[]"] d[of b "[]"] by simp
qed

end

section \<open>Interpretations\<close>

lemma small_in_range: "t \<le> maxVarInt1 \<Longrightarrow> in_range t"
  by (simp add: le_maxVarInt)

lemma fits_in_range_0 [simp]: "in_range 0"
  by (simp add: maxVarInt8_def)

lemmas codec_defs = frame_type_defs enc_byte maxVarInt1_def small_in_range

lemma within1:
  assumes "varint b (\<lambda>v r. Inr (g v, consumed b r)) = Inr (f, n)"
  shows "0 \<le> n \<and> n \<le> int (length b)"
  using assms by (auto elim!: varint_within simp: consumed_def)

lemma within2:
  assumes "varint s (\<lambda>v b. varint b (\<lambda>w r. Inr (g v w, consumed s r))) = Inr (f, n)"
  shows "0 \<le> n \<and> n \<le> int (length s)"
  using assms by (auto elim!: varint_within simp: consumed_def)

lemma within4:
  assumes "varint s (\<lambda>u b. varint b (\<lambda>v b. varint b (\<lambda>w b. varint b (\<lambda>x r.
             Inr (g u v w x, consumed s r))))) = Inr (f, n)"
  shows "0 \<le> n \<and> n \<le> int (length s)"
  using assms by (auto elim!: varint_within simp: consumed_def)

subsection \<open>Frames with one or two numbers\<close>

definition wf_DataBlockedFrame :: "DataBlockedFrame \<Rightarrow> bool" where
  "wf_DataBlockedFrame f \<longleftrightarrow> fits (db_MaximumData f)"

interpretation data_blocked: frame_codec wf_DataBlockedFrame "\<lambda>f. FrameTypeDataBlocked"
  "\<lambda>t. parseDataBlockedFrame" "\<lambda>b f. ok (DataBlockedFrame_Append b f)" DataBlockedFrame_Length
proof (unfold_locales, goal_cases)
  case (2 f)
  show ?case
    by (rule exI[of _ "enc (to_u64 (db_MaximumData f))"])
       (use 2 in \<open>simp add: wf_DataBlockedFrame_def DataBlockedFrame_Append_def DataBlockedFrame_Length_def
          parseDataBlockedFrame_def codec_defs\<close>)
qed (auto simp: codec_defs parseDataBlockedFrame_def dest: within1)

definition wf_RetireConnectionIDFrame :: "RetireConnectionIDFrame \<Rightarrow> bool" where
  "wf_RetireConnectionIDFrame f \<longleftrightarrow> in_range (rc_SequenceNumber f)"

interpretation retire_connection_id: frame_codec wf_RetireConnectionIDFrame "\<lambda>f. FrameTypeRetireConnectionID"
  "\<lambda>t. parseRetireConnectionIDFrame" "\<lambda>b f. ok (RetireConnectionIDFrame_Append b f)" RetireConnectionIDFrame_Length
proof (unfold_locales, goal_cases)
  case (2 f)
  show ?case
    by (rule exI[of _ "enc (rc_SequenceNumber f)"])
       (use 2 in \<open>simp add: wf_RetireConnectionIDFrame_def RetireConnectionIDFrame_Append_def
          RetireConnectionIDFrame_Length_def parseRetireConnectionIDFrame_def codec_defs\<close>)
qed (auto simp: codec_defs parseRetireConnectionIDFrame_def dest: within1)

definition wf_MaxDataFrame :: "MaxDataFrame \<Rightarrow> bool" where
  "wf_MaxDataFrame f \<longleftrightarrow> fits (md_MaximumData f)"

interpretation max_data: frame_codec wf_MaxDataFrame "\<lambda>f. FrameTypeMaxData"
  "\<lambda>t. parseMaxDataFrame" "\<lambda>b f. ok (MaxDataFrame_Append b f)" MaxDataFrame_Length
proof (unfold_locales, goal_cases)
  case (2 f)
  show ?case
    by (rule exI[of _ "enc (to_u64 (md_MaximumData f))"])
       (use 2 in \<open>simp add: wf_MaxDataFrame_def MaxDataFrame_Append_def MaxDataFrame_Length_def
          parseMaxDataFrame_def codec_defs\<close>)
qed (auto simp: codec_defs parseMaxDataFrame_def dest: within1)

definition wf_StreamDataBlockedFrame :: "StreamDataBlockedFrame \<Rightarrow> bool" where
  "wf_StreamDataBlockedFrame f \<longleftrightarrow> fits (sdb_StreamID f) \<and> fits (sdb_MaximumStreamData f)"

interpretation stream_data_blocked: frame_codec wf_StreamDataBlockedFrame "\<lambda>f. FrameTypeStreamDataBlocked"
  "\<lambda>t. parseStreamDataBlockedFrame" "\<lambda>b f. ok (StreamDataBlockedFrame_Append b f)" StreamDataBlockedFrame_Length
proof (unfold_locales, goal_cases)
  case (2 f)
  show ?case
    by (rule exI[of _ "enc (to_u64 (sdb_StreamID f)) @ enc (to_u64 (sdb_MaximumStreamData f))"])
       (use 2 in \<open>simp add: wf_StreamDataBlockedFrame_def StreamDataBlockedFrame_Append_def
          StreamDataBlockedFrame_Length_def parseStreamDataBlockedFrame_def codec_defs\<close>)
next
  case (3 t b f n)
  then show ?case
    by (auto simp: parseStreamDataBlockedFrame_def consumed_def elim!: varint_within)
qed (auto simp: codec_defs)

definition wf_MaxStreamDataFrame :: "MaxStreamDataFrame \<Rightarrow> bool" where
  "wf_MaxStreamDataFrame f \<longleftrightarrow> fits (msd_StreamID f) \<and> fits (msd_MaximumStreamData f)"

interpretation max_stream_data: frame_codec wf_MaxStreamDataFrame "\<lambda>f. FrameTypeMaxStreamData"
  "\<lambda>t. parseMaxStreamDataFrame" "\<lambda>b f. ok (MaxStreamDataFrame_Append b f)" MaxStreamDataFrame_Length
proof (unfold_locales, goal_cases)
  case (2 f)
  show ?case
    by (rule exI[of _ "enc (to_u64 (msd_StreamID f)) @ enc (to_u64 (msd_MaximumStreamData f))"])
       (use 2 in \<open>simp add: wf_MaxStreamDataFrame_def MaxStreamDataFrame_Append_def
          MaxStreamDataFrame_Length_def parseMaxStreamDataFrame_def codec_defs\<close>)
qed (auto simp: codec_defs parseMaxStreamDataFrame_def dest: within2)

definition wf_StopSendingFrame :: "StopSendingFrame \<Rightarrow> bool" where
  "wf_StopSendingFrame f \<longleftrightarrow> fits (ss_StreamID f) \<and> in_range (ss_ErrorCode f)"

interpretation stop_sending: frame_codec wf_StopSendingFrame "\<lambda>f. FrameTypeStopSending"
  "\<lambda>t. parseStopSendingFrame" "\<lambda>b f. ok (StopSendingFrame_Append b f)" StopSendingFrame_Length
proof (unfold_locales, goal_cases)
  case (2 f)
  show ?case
    by (rule exI[of _ "enc (to_u64 (ss_StreamID f)) @ enc (ss_ErrorCode f)"])
       (use 2 in \<open>simp add: wf_StopSendingFrame_def StopSendingFrame_Append_def
          StopSendingFrame_Length_def parseStopSendingFrame_def codec_defs\<close>)
qed (auto simp: codec_defs parseStopSendingFrame_def dest: within2)

subsection \<open>Stream counts and path validation\<close>

definition max_streams_type :: "MaxStreamsFrame \<Rightarrow> FrameType" where
  "max_streams_type f = (case ms_Type f of StreamTypeBidi \<Rightarrow> FrameTypeBidiMaxStreams
                                         | StreamTypeUni \<Rightarrow> FrameTypeUniMaxStreams)"

definition wf_MaxStreamsFrame :: "MaxStreamsFrame \<Rightarrow> bool" where
  "wf_MaxStreamsFrame f \<longleftrightarrow> fits (ms_MaxStreamNum f) \<and> ms_MaxStreamNum f \<le> MaxStreamCount"

interpretation max_streams: frame_codec wf_MaxStreamsFrame max_streams_type
  "\<lambda>t b. parseMaxStreamsFrame b t" "\<lambda>b f. ok (MaxStreamsFrame_Append b f)" MaxStreamsFrame_Length
proof (unfold_locales, goal_cases)
  case (2 f)
  show ?case
    by (rule exI[of _ "enc (to_u64 (ms_MaxStreamNum f))"], cases "ms_Type f")
       (use 2 in \<open>simp_all add: wf_MaxStreamsFrame_def MaxStreamsFrame_Append_def max_streams_type_def
          MaxStreamsFrame_Length_def parseMaxStreamsFrame_def codec_defs\<close>)
next
  case (3 t b f n)
  then show ?case
    by (auto simp: parseMaxStreamsFrame_def consumed_def Let_def elim!: varint_within split: if_splits)
qed (auto simp: codec_defs max_streams_type_def split: StreamType.splits)

definition streams_blocked_type :: "StreamsBlockedFrame \<Rightarrow> FrameType" where
  "streams_blocked_type f = (case sb_Type f of StreamTypeBidi \<Rightarrow> FrameTypeBidiStreamBlocked
                                             | StreamTypeUni \<Rightarrow> FrameTypeUniStreamBlocked)"

definition wf_StreamsBlockedFrame :: "StreamsBlockedFrame \<Rightarrow> bool" where
  "wf_StreamsBlockedFrame f \<longleftrightarrow> fits (sb_StreamLimit f) \<and> sb_StreamLimit f \<le> MaxStreamCount"

interpretation streams_blocked: frame_codec wf_StreamsBlockedFrame streams_blocked_type
  "\<lambda>t b. parseStreamsBlockedFrame b t" "\<lambda>b f. ok (StreamsBlockedFrame_Append b f)" StreamsBlockedFrame_Length
proof (unfold_locales, goal_cases)
  case (2 f)
  show ?case
    by (rule exI[of _ "enc (to_u64 (sb_StreamLimit f))"], cases "sb_Type f")
       (use 2 in \<open>simp_all add: wf_StreamsBlockedFrame_def StreamsBlockedFrame_Append_def streams_blocked_type_def
          StreamsBlockedFrame_Length_def parseStreamsBlockedFrame_def codec_defs\<close>)
next
  case (3 t b f n)
  then show ?case
    by (auto simp: parseStreamsBlockedFrame_def consumed_def Let_def elim!: varint_within split: if_splits)
qed (auto simp: codec_defs streams_blocked_type_def split: StreamType.splits)

definition wf_PathChallengeFrame :: "PathChallengeFrame \<Rightarrow> bool" where
  "wf_PathChallengeFrame f \<longleftrightarrow> length (pc_Data f) = 8"

interpretation path_challenge: frame_codec wf_PathChallengeFrame "\<lambda>f. FrameTypePathChallenge"
  "\<lambda>t. parsePathChallengeFrame" "\<lambda>b f. ok (PathChallengeFrame_Append b f)" PathChallengeFrame_Length
proof (unfold_locales, goal_cases)
  case (2 f)
  show ?case
    by (rule exI[of _ "pc_Data f"])
       (use 2 in \<open>simp add: wf_PathChallengeFrame_def PathChallengeFrame_Append_def
          PathChallengeFrame_Length_def parsePathChallengeFrame_def codec_defs\<close>)
qed (auto simp: codec_defs parsePathChallengeFrame_def split: if_splits)

definition wf_PathResponseFrame :: "PathResponseFrame \<Rightarrow> bool" where
  "wf_PathResponseFrame f \<longleftrightarrow> length (pr_Data f) = 8"

interpretation path_response: frame_codec wf_PathResponseFrame "\<lambda>f. FrameTypePathResponse"
  "\<lambda>t. parsePathResponseFrame" "\<lambda>b f. ok (PathResponseFrame_Append b f)" PathResponseFrame_Length
proof (unfold_locales, goal_cases)
  case (2 f)
  show ?case
    by (rule exI[of _ "pr_Data f"])
       (use 2 in \<open>simp add: wf_PathResponseFrame_def PathResponseFrame_Append_def
          PathResponseFrame_Length_def parsePathResponseFrame_def codec_defs\<close>)
qed (auto simp: codec_defs parsePathResponseFrame_def split: if_splits)

subsection \<open>Tokens, errors, resets\<close>

lemmas len64_simps = len64_in_range unat_len64 uint_len64

lemma len64_0: "int (length b) < 2 ^ 62 \<Longrightarrow> len64 b = 0 \<longleftrightarrow> b = []"
  using unat_len64[of b] by (metis length_0_conv unat_eq_zero)

definition wf_NewTokenFrame :: "NewTokenFrame \<Rightarrow> bool" where
  "wf_NewTokenFrame f \<longleftrightarrow> nt_Token f \<noteq> [] \<and> int (length (nt_Token f)) < 2 ^ 62"

interpretation new_token: frame_codec wf_NewTokenFrame "\<lambda>f. FrameTypeNewToken"
  "\<lambda>t. parseNewTokenFrame" "\<lambda>b f. ok (NewTokenFrame_Append b f)" NewTokenFrame_Length
proof (unfold_locales, goal_cases)
  case (2 f)
  then have l: "int (length (nt_Token f)) < 2 ^ 62" "nt_Token f \<noteq> []" by (auto simp: wf_NewTokenFrame_def)
  show ?case
    by (rule exI[of _ "enc (len64 (nt_Token f)) @ nt_Token f"])
       (use l len64_simps[OF l(1)] len64_0[OF l(1)] in \<open>simp add: NewTokenFrame_Append_def NewTokenFrame_Length_def
          parseNewTokenFrame_def codec_defs consumed_def\<close>)
next
  case (3 t b f n)
  then show ?case
    by (auto simp: parseNewTokenFrame_def consumed_def elim!: varint_within split: if_splits)
qed (auto simp: codec_defs)

definition wf_AckFrequencyFrame :: "AckFrequencyFrame \<Rightarrow> bool" where
  "wf_AckFrequencyFrame f \<longleftrightarrow> in_range (af_SequenceNumber f) \<and> in_range (af_AckElicitingThreshold f) \<and>
     0 \<le> af_RequestMaxAckDelay f \<and> af_RequestMaxAckDelay f \<le> max_int64 \<and>
     Microsecond dvd af_RequestMaxAckDelay f \<and> fits (af_ReorderingThreshold f)"

lemma delay_roundtrip:
  assumes "0 \<le> d" "d \<le> max_int64" "Microsecond dvd d"
  shows "fits (d sdiv Microsecond)" "wrap64 ((d sdiv Microsecond) * Microsecond) = d"
proof -
  have s: "d sdiv Microsecond = d div 1000" using assms(1) by (simp add: Microsecond_def sdiv_pos)
  have "d div 1000 \<le> max_int64 div 1000" using assms(2) by (rule zdiv_mono1) simp
  then show "fits (d sdiv Microsecond)" using assms(1)
    by (simp add: s fits_def max_int64_def pos_imp_zdiv_nonneg_iff)
  have "(d sdiv Microsecond) * Microsecond = d"
    unfolding s using assms(3) by (simp add: Microsecond_def)
  then show "wrap64 ((d sdiv Microsecond) * Microsecond) = d"
    using assms by (simp add: wrap64_id min_int64_def max_int64_def)
qed

lemma enc_ack_frequency: "in_range FrameTypeAckFrequency" "length (enc FrameTypeAckFrequency) = 2"
  by (simp_all add: FrameTypeAckFrequency_def maxVarInt_defs enc_def Append_def)

interpretation ack_frequency: frame_codec wf_AckFrequencyFrame "\<lambda>f. FrameTypeAckFrequency"
  "\<lambda>t. parseAckFrequencyFrame" "\<lambda>b f. ok (AckFrequencyFrame_Append b f)" AckFrequencyFrame_Length
proof (unfold_locales, goal_cases)
  case (2 f)
  then have w: "in_range (af_SequenceNumber f)" "in_range (af_AckElicitingThreshold f)"
      "fits (af_ReorderingThreshold f)" "0 \<le> af_RequestMaxAckDelay f"
    and d: "fits (af_RequestMaxAckDelay f sdiv Microsecond)"
      "wrap64 ((af_RequestMaxAckDelay f sdiv Microsecond) * Microsecond) = af_RequestMaxAckDelay f"
    using delay_roundtrip[of "af_RequestMaxAckDelay f"] by (auto simp: wf_AckFrequencyFrame_def)
  show ?case
    by (rule exI[of _ "enc (af_SequenceNumber f) @ enc (af_AckElicitingThreshold f) @
          enc (to_u64 (af_RequestMaxAckDelay f sdiv Microsecond)) @ enc (to_u64 (af_ReorderingThreshold f))"])
       (use w d in \<open>simp add: AckFrequencyFrame_Append_def enc_ack_frequency
          AckFrequencyFrame_Length_def parseAckFrequencyFrame_def Let_def\<close>)
next
  case (3 t b f n)
  then show ?case unfolding parseAckFrequencyFrame_def Let_def by (rule within4)
qed (simp add: enc_ack_frequency)

definition connection_close_type :: "ConnectionCloseFrame \<Rightarrow> FrameType" where
  "connection_close_type f =
     (if cc_IsApplicationError f then FrameTypeApplicationClose else FrameTypeConnectionClose)"

definition wf_ConnectionCloseFrame :: "ConnectionCloseFrame \<Rightarrow> bool" where
  "wf_ConnectionCloseFrame f \<longleftrightarrow> in_range (cc_ErrorCode f) \<and> in_range (cc_FrameType f) \<and>
     (cc_IsApplicationError f \<longrightarrow> cc_FrameType f = 0) \<and> int (length (cc_ReasonPhrase f)) < 2 ^ 62"

interpretation connection_close: frame_codec wf_ConnectionCloseFrame connection_close_type
  "\<lambda>t b. parseConnectionCloseFrame b t" "\<lambda>b f. ok (ConnectionCloseFrame_Append b f)" ConnectionCloseFrame_Length
proof (unfold_locales, goal_cases)
  case (2 f)
  then have w: "in_range (cc_ErrorCode f)" "in_range (cc_FrameType f)"
      "cc_IsApplicationError f \<longrightarrow> cc_FrameType f = 0" "int (length (cc_ReasonPhrase f)) < 2 ^ 62"
    by (auto simp: wf_ConnectionCloseFrame_def)
  show ?case
    by (rule exI[of _ "enc (cc_ErrorCode f) @ (if cc_IsApplicationError f then [] else enc (cc_FrameType f)) @
          enc (len64 (cc_ReasonPhrase f)) @ cc_ReasonPhrase f"])
       (use w len64_simps[OF w(4)] in \<open>simp add: ConnectionCloseFrame_Append_def connection_close_type_def
          ConnectionCloseFrame_Length_def parseConnectionCloseFrame_def Let_def codec_defs consumed_def\<close>)
next
  case (3 t b f n)
  then show ?case unfolding parseConnectionCloseFrame_def Let_def
    by (elim varint_within) (auto split: if_splits elim!: varint_within[where z = "(f, n)"] simp: consumed_def)
qed (auto simp: codec_defs connection_close_type_def)

definition reset_stream_type :: "ResetStreamFrame \<Rightarrow> FrameType" where
  "reset_stream_type f = (if rs_ReliableSize f = 0 then FrameTypeResetStream else FrameTypeResetStreamAt)"

definition wf_ResetStreamFrame :: "ResetStreamFrame \<Rightarrow> bool" where
  "wf_ResetStreamFrame f \<longleftrightarrow> fits (rs_StreamID f) \<and> in_range (rs_ErrorCode f) \<and> fits (rs_FinalSize f) \<and>
     0 \<le> rs_ReliableSize f \<and> rs_ReliableSize f \<le> rs_FinalSize f"

lemma to_u64_le: "fits a \<Longrightarrow> fits b \<Longrightarrow> to_u64 a \<le> to_u64 b \<longleftrightarrow> a \<le> b"
  using uint_to_u64[of a] uint_to_u64[of b] by (auto simp: fits_def word_le_def)

lemma to_i64_0 [simp]: "to_i64 0 = 0"
  by (simp add: to_i64_def)

interpretation reset_stream: frame_codec wf_ResetStreamFrame reset_stream_type
  "\<lambda>t b. parseResetStreamFrame b (t = FrameTypeResetStreamAt)"
  "\<lambda>b f. ok (ResetStreamFrame_Append b f)" ResetStreamFrame_Length
proof (unfold_locales, goal_cases)
  case (2 f)
  then have w: "fits (rs_StreamID f)" "in_range (rs_ErrorCode f)" "fits (rs_FinalSize f)"
      "fits (rs_ReliableSize f)" "0 \<le> rs_ReliableSize f" "rs_ReliableSize f \<le> rs_FinalSize f"
    by (auto simp: wf_ResetStreamFrame_def fits_def)
  have le: "to_u64 (rs_ReliableSize f) \<le> to_u64 (rs_FinalSize f)" using w to_u64_le by simp
  show ?case
    by (rule exI[of _ "enc (to_u64 (rs_StreamID f)) @ enc (rs_ErrorCode f) @ enc (to_u64 (rs_FinalSize f)) @
          (if rs_ReliableSize f > 0 then enc (to_u64 (rs_ReliableSize f)) else [])"])
       (use w le in \<open>auto simp: ResetStreamFrame_Append_def reset_stream_type_def
          ResetStreamFrame_Length_def parseResetStreamFrame_def Let_def codec_defs not_less consumed_def\<close>)
next
  case (3 t b f n)
  then show ?case unfolding parseResetStreamFrame_def Let_def
    by (elim varint_within) (auto split: if_splits elim!: varint_within[where z = "(f, n)"] simp: consumed_def)
qed (auto simp: codec_defs reset_stream_type_def)

subsection \<open>New connection identifiers\<close>

fun pull :: "frame_error + 'f outcome \<times> int \<Rightarrow> frame_error + 'f \<times> int" where
  "pull (Inl e) = Inl e"
| "pull (Inr (Done f, n)) = Inr (f, n)"
| "pull (Inr (Panic, n)) = Inl UnknownFrameType"

lemma new_connection_id_no_panic: "parseNewConnectionIDFrame b \<noteq> Inr (Panic, n)"
  unfolding parseNewConnectionIDFrame_def
  by (auto simp: Let_def ParseConnectionID_def elim!: varint_within split: list.splits if_splits)

definition wf_NewConnectionIDFrame :: "NewConnectionIDFrame \<Rightarrow> bool" where
  "wf_NewConnectionIDFrame f \<longleftrightarrow> in_range (nc_SequenceNumber f) \<and> nc_RetirePriorTo f \<le> nc_SequenceNumber f \<and>
     0 < length (nc_ConnectionID f) \<and> length (nc_ConnectionID f) \<le> maxConnectionIDLen \<and>
     length (nc_StatelessResetToken f) = 16"

lemma tail_fits:
  assumes "\<not> length c - unat (w::byte) < 16"
  shows "uint w + 16 \<le> int (length c)"
proof -
  have "uint w = int (unat w)" by simp
  then show ?thesis using assms by linarith
qed

lemma drop_Cons_length: "drop k b = x # c \<Longrightarrow> int (length c) \<le> int (length b)"
  using length_drop[of k b] by simp

lemma tail_nonneg: "m \<le> n \<Longrightarrow> 0 \<le> int n - (int m - uint (w::byte)) + 16"
  using uint_nonnegative[of w] by linarith

interpretation new_connection_id: frame_codec wf_NewConnectionIDFrame "\<lambda>f. FrameTypeNewConnectionID"
  "\<lambda>t b. pull (parseNewConnectionIDFrame b)" NewConnectionIDFrame_Append NewConnectionIDFrame_Length
proof (unfold_locales, goal_cases)
  case (2 f)
  then have w: "in_range (nc_SequenceNumber f)" "in_range (nc_RetirePriorTo f)"
      "nc_RetirePriorTo f \<le> nc_SequenceNumber f" "nc_ConnectionID f \<noteq> []"
      "length (nc_ConnectionID f) \<le> maxConnectionIDLen" "length (nc_StatelessResetToken f) = 16"
    by (auto simp: wf_NewConnectionIDFrame_def intro: order_trans)
  have u: "unat (of_nat (length (nc_ConnectionID f)) :: byte) = length (nc_ConnectionID f)"
    using w(5) by (simp add: maxConnectionIDLen_def unat_of_nat take_bit_nat_eq_self)
  show ?case
    by (rule exI[of _ "enc (nc_SequenceNumber f) @ enc (nc_RetirePriorTo f) @
          [of_nat (length (nc_ConnectionID f))] @ nc_ConnectionID f @ nc_StatelessResetToken f"])
       (use w u in \<open>simp add: NewConnectionIDFrame_Append_def NewConnectionIDFrame_Length_def
          parseNewConnectionIDFrame_def ParseConnectionID_def Let_def codec_defs not_less consumed_def\<close>)
next
  case (3 t b f n)
  then obtain g where g: "parseNewConnectionIDFrame b = Inr (g, n)"
    by (cases "parseNewConnectionIDFrame b") (auto elim: pull.elims)
  then show ?case unfolding parseNewConnectionIDFrame_def
    using new_connection_id_no_panic[of b n]
    by (auto simp: Let_def ParseConnectionID_def consumed_def elim!: varint_within split: list.splits if_splits
        dest!: tail_fits drop_Cons_length) (erule tail_nonneg)
qed (auto simp: codec_defs)

subsection \<open>Frames that carry data\<close>

definition datagram_type :: "DatagramFrame \<Rightarrow> FrameType" where
  "datagram_type f = (if dg_DataLenPresent f then FrameTypeDatagramWithLength else FrameTypeDatagramNoLength)"

definition wf_DatagramFrame :: "DatagramFrame \<Rightarrow> bool" where
  "wf_DatagramFrame f \<longleftrightarrow> dg_DataLenPresent f \<and> int (length (dg_Data f)) < 2 ^ 62"

interpretation datagram: frame_codec wf_DatagramFrame datagram_type
  "\<lambda>t b. parseDatagramFrame b t" "\<lambda>b f. ok (DatagramFrame_Append b f)" DatagramFrame_Length
proof (unfold_locales, goal_cases)
  case (2 f)
  then have w: "dg_DataLenPresent f" "int (length (dg_Data f)) < 2 ^ 62" by (auto simp: wf_DatagramFrame_def)
  show ?case
    by (rule exI[of _ "enc (len64 (dg_Data f)) @ dg_Data f"])
       (use w len64_simps[OF w(2)] in \<open>simp add: DatagramFrame_Append_def datagram_type_def
          DatagramFrame_Length_def parseDatagramFrame_def Let_def codec_defs consumed_def\<close>)
next
  case (3 t b f n)
  then show ?case unfolding parseDatagramFrame_def Let_def
    by (auto split: if_splits elim!: varint_within simp: consumed_def)
qed (auto simp: codec_defs datagram_type_def)

definition wf_CryptoFrame :: "CryptoFrame \<Rightarrow> bool" where
  "wf_CryptoFrame f \<longleftrightarrow> fits (cf_Offset f) \<and> int (length (cf_Data f)) < 2 ^ 62"

interpretation crypto: frame_codec wf_CryptoFrame "\<lambda>f. FrameTypeCrypto"
  "\<lambda>t b. parseCryptoFrame b" "\<lambda>b f. ok (CryptoFrame_Append b f)" CryptoFrame_Length
proof (unfold_locales, goal_cases)
  case (2 f)
  then have w: "fits (cf_Offset f)" "int (length (cf_Data f)) < 2 ^ 62" by (auto simp: wf_CryptoFrame_def)
  show ?case
    by (rule exI[of _ "enc (to_u64 (cf_Offset f)) @ enc (len64 (cf_Data f)) @ cf_Data f"])
       (use w len64_simps[OF w(2)] len64_0[OF w(2)] in \<open>simp add: CryptoFrame_Append_def
          CryptoFrame_Length_def parseCryptoFrame_def codec_defs consumed_def\<close>)
next
  case (3 t b f n)
  then show ?case unfolding parseCryptoFrame_def
    by (auto split: if_splits elim!: varint_within simp: consumed_def)
qed (auto simp: codec_defs)

definition stream_type :: "StreamFrame \<Rightarrow> FrameType" where
  "stream_type f = ucast (StreamFrame_typ f)"

lemma stream_type_bits:
  "stream_type f AND 4 > 0 \<longleftrightarrow> sf_Offset f \<noteq> 0"
  "stream_type f AND 1 > 0 \<longleftrightarrow> sf_Fin f"
  "stream_type f AND 2 > 0 \<longleftrightarrow> sf_DataLenPresent f"
  by (auto simp: stream_type_def StreamFrame_typ_def Let_def)

lemma enc_stream_type: "enc (stream_type f) = [StreamFrame_typ f]" "IsStreamFrameType (stream_type f)"
  "in_range (stream_type f)"
proof -
  have "stream_type f \<le> maxVarInt1"
    by (auto simp: stream_type_def StreamFrame_typ_def Let_def maxVarInt1_def)
  then show "enc (stream_type f) = [StreamFrame_typ f]" "in_range (stream_type f)"
    by (auto simp: enc_byte small_in_range) (auto simp: stream_type_def StreamFrame_typ_def Let_def)
  show "IsStreamFrameType (stream_type f)"
    by (auto simp: IsStreamFrameType_def stream_type_def StreamFrame_typ_def Let_def)
qed

text \<open>A frame that can be sent; only the origin of the buffer is not on the wire.\<close>

definition wf_StreamFrame :: "StreamFrame \<Rightarrow> bool" where
  "wf_StreamFrame f \<longleftrightarrow> fits (sf_StreamID f) \<and> fits (sf_Offset f) \<and> (sf_Data f = [] \<longrightarrow> sf_Fin f) \<and>
     int (length (sf_Data f)) \<le> MaxPacketBufferSize \<and>
     sf_Offset f + int (length (sf_Data f)) \<le> MaxByteCount"

definition received_stream :: "StreamFrame \<Rightarrow> StreamFrame" where
  "received_stream f = f\<lparr> sf_fromPool := int (length (sf_Data f)) \<ge> MinStreamFrameBufferSize \<rparr>"

lemma stream_written:
  assumes "wf_StreamFrame f"
  shows "\<exists>e. \<forall>b r. StreamFrame_Append b f = Done (Inr (b @ enc (stream_type f) @ e)) \<and>
           StreamFrame_Length f = Done (int (length (enc (stream_type f) @ e))) \<and>
           (sf_DataLenPresent f \<or> r = [] \<longrightarrow>
              ParseStreamFrame (e @ r) (stream_type f) = Inr (received_stream f, int (length e)))"
proof -
  have w: "fits (sf_StreamID f)" "fits (sf_Offset f)" "sf_Data f = [] \<longrightarrow> sf_Fin f"
    "int (length (sf_Data f)) \<le> MaxPacketBufferSize"
    "sf_Offset f + int (length (sf_Data f)) \<le> MaxByteCount"
    using assms by (auto simp: wf_StreamFrame_def)
  have l: "int (length (sf_Data f)) < 2 ^ 62" using w(4) by (simp add: MaxPacketBufferSize_def)
  show ?thesis
    by (rule exI[of _ "enc (to_u64 (sf_StreamID f)) @ (if sf_Offset f \<noteq> 0 then enc (to_u64 (sf_Offset f)) else []) @
          (if sf_DataLenPresent f then enc (len64 (sf_Data f)) else []) @ sf_Data f"])
       (use w len64_simps[OF l] in \<open>auto simp: StreamFrame_Append_def StreamFrame_Length_def enc_stream_type
          ParseStreamFrame_def stream_finish_def Let_def stream_type_bits received_stream_def consumed_def\<close>)
qed

lemma stream_within:
  "ParseStreamFrame b t = Inr (f, n) \<Longrightarrow> 0 \<le> n \<and> n \<le> int (length b)"
  unfolding ParseStreamFrame_def Let_def
  by (auto split: if_splits elim!: varint_within simp: consumed_def stream_finish_def)

interpretation stream: frame_codec
  "\<lambda>f. wf_StreamFrame f \<and> sf_DataLenPresent f \<and> received_stream f = f" stream_type
  "\<lambda>t b. ParseStreamFrame b t" StreamFrame_Append StreamFrame_Length
proof (unfold_locales, goal_cases)
  case (2 f)
  then show ?case using stream_written[of f] by auto
qed (auto simp: enc_stream_type dest: stream_within)

lemma datagram_last_written:
  assumes "\<not> dg_DataLenPresent f"
  shows "ok (DatagramFrame_Append b f) = Done (Inr (b @ enc (datagram_type f) @ dg_Data f)) \<and>
         DatagramFrame_Length f = Done (int (length (enc (datagram_type f) @ dg_Data f))) \<and>
         parseDatagramFrame (dg_Data f) (datagram_type f) = Inr (f, int (length (dg_Data f)))"
  using assms by (simp add: DatagramFrame_Append_def datagram_type_def DatagramFrame_Length_def
      parseDatagramFrame_def codec_defs)

section \<open>Splitting\<close>

lemma enc_len_small:
  assumes "0 \<le> n" "n < 2 ^ 14"
  shows "in_range (to_u64 n)" "length (enc (to_u64 n)) = (if n < 64 then 1 else 2)"
proof -
  have u: "uint (to_u64 n) = n" using assms by (intro uint_to_u64) auto
  show "in_range (to_u64 n)" using assms by (intro to_u64_in_range) auto
  show "length (enc (to_u64 n)) = (if n < 64 then 1 else 2)"
    unfolding enc_length_cases le_maxVarInt u using assms by simp
qed

lemma fit_data_small:
  assumes "m < 2 ^ 14" "0 \<le> h"
  shows "fit_data h m True = Done (if m < h then 0 else if m - h < 64 then m - h else m - h - 1)"
    "fit_data h m False = Done (if m < h then 0 else m - h)"
  using assms enc_len_small[of "m - h"] by (auto simp: fit_data_def Let_def)

text \<open>The length of a frame with \<open>n\<close> bytes of data after a header, with or without their number.\<close>

definition total_len :: "int \<Rightarrow> bool \<Rightarrow> int \<Rightarrow> int" where
  "total_len h counted n = h + n + (if counted then int (length (enc (to_u64 n))) else 0)"

lemma total_len_mono_small:
  assumes "m < 2 ^ 14" "1 \<le> h" "0 \<le> d" "d < 2 ^ 62" "m < total_len h c d"
    "fit_data (if c then h + 1 else h) m c = Done n"
  shows "n = 0 \<longrightarrow> m < total_len h c 1" "0 \<le> n" "n < d \<or> n = 0" "n \<noteq> 0 \<longrightarrow> total_len h c n \<le> m"
proof -
  have d: "in_range (to_u64 d)" using assms(3,4) by (intro to_u64_in_range)
  have e: "d < 64 \<Longrightarrow> length (enc (to_u64 d)) = 1" "\<not> d < 2 ^ 14 \<Longrightarrow> length (enc (to_u64 d)) \<ge> 1"
    "64 \<le> d \<Longrightarrow> d < 2 ^ 14 \<Longrightarrow> length (enc (to_u64 d)) = 2"
    using enc_len_small[of d] assms(3) enc_length[OF d] by auto
  have n: "n = (if m < (if c then h + 1 else h) then 0
      else if c then (if m - (h + 1) < 64 then m - (h + 1) else m - (h + 1) - 1) else m - h)"
    using assms(6) fit_data_small[of m "h + 1"] fit_data_small[of m h] assms(1,2) by (cases c) auto
  show "0 \<le> n" using n by auto
  show "n \<noteq> 0 \<longrightarrow> total_len h c n \<le> m"
    using n enc_len_small(2)[of n] assms(1,2) by (auto simp: total_len_def split: if_splits)
  show "n = 0 \<longrightarrow> m < total_len h c 1"
    using n enc_len_small(2)[of 1] by (auto simp: total_len_def split: if_splits)
  show "n < d \<or> n = 0"
    using n e assms(1-5) by (cases "d < 64"; cases "d < 2 ^ 14") (auto simp: total_len_def split: if_splits)
qed

definition stream_header :: "StreamFrame \<Rightarrow> int" where
  "stream_header f = 1 + int (length (enc (to_u64 (sf_StreamID f)))) +
     (if sf_Offset f \<noteq> 0 then int (length (enc (to_u64 (sf_Offset f)))) else 0)"

lemma stream_length_eq:
  assumes "fits (sf_StreamID f)" "fits (sf_Offset f)" "int (length (sf_Data f)) < 2 ^ 62"
  shows "StreamFrame_Length f = Done (total_len (stream_header f) (sf_DataLenPresent f) (int (length (sf_Data f))))"
    "StreamFrame_MaxDataLen f m =
       fit_data (if sf_DataLenPresent f then stream_header f + 1 else stream_header f) m (sf_DataLenPresent f)"
  using assms len64_in_range[OF assms(3)]
  by (simp_all add: StreamFrame_Length_def StreamFrame_MaxDataLen_def stream_header_def total_len_def)

text \<open>
  (C24) Splitting a STREAM frame for the space left in a packet. It is left as it is exactly if it
  fits. It is not split, and nothing is sent, only if even one byte of its data would not fit. In all
  other cases the first part fits into the space, carries on where the frame starts and does not
  end the stream, the second part follows on it and keeps the end of the stream, and both
  together carry the data of the frame. The splitting does not panic.
\<close>

theorem stream_frame_split:
  assumes "wf_StreamFrame f" "maxSize < 2 ^ 14"
  shows "case StreamFrame_MaybeSplitOffFrame f maxSize of
      Panic \<Rightarrow> False
    | Done (None, False, g) \<Rightarrow> g = f \<and> (\<exists>l. StreamFrame_Length f = Done l \<and> l \<le> maxSize)
    | Done (None, True, g) \<Rightarrow> g = f \<and> (\<forall>d. \<exists>l. StreamFrame_Length (f\<lparr> sf_Data := [d] \<rparr>) = Done l \<and> l > maxSize)
    | Done (Some h, split, g) \<Rightarrow>
        split \<and> sf_Data h @ sf_Data g = sf_Data f \<and> sf_Data h \<noteq> [] \<and> sf_Data g \<noteq> [] \<and>
        sf_Offset h = sf_Offset f \<and> sf_Offset g = sf_Offset f + int (length (sf_Data h)) \<and>
        \<not> sf_Fin h \<and> sf_Fin g = sf_Fin f \<and> sf_StreamID h = sf_StreamID f \<and> sf_StreamID g = sf_StreamID f \<and>
        (\<exists>l. StreamFrame_Length f = Done l \<and> l > maxSize) \<and>
        (\<exists>l. StreamFrame_Length h = Done l \<and> l \<le> maxSize)"
proof -
  let ?d = "int (length (sf_Data f))" and ?c = "sf_DataLenPresent f" and ?h = "stream_header f"
  have w: "fits (sf_StreamID f)" "fits (sf_Offset f)" "?d \<le> MaxPacketBufferSize" "?d < 2 ^ 62"
    using assms(1) by (auto simp: wf_StreamFrame_def MaxPacketBufferSize_def)
  note len = stream_length_eq[OF w(1,2,4)]
  have h: "1 \<le> ?h" by (simp add: stream_header_def)
  show ?thesis
  proof (cases "total_len ?h ?c ?d \<le> maxSize")
    case True
    then show ?thesis by (simp add: StreamFrame_MaybeSplitOffFrame_def len)
  next
    case False
    obtain n where n: "fit_data (if ?c then ?h + 1 else ?h) maxSize ?c = Done n"
      using fit_data_small[of maxSize] assms(2) h by (cases ?c) auto
    note t = total_len_mono_small[OF assms(2) h _ w(4) _ n]
    have t': "n = 0 \<longrightarrow> maxSize < total_len ?h ?c 1" "0 \<le> n" "n < ?d \<or> n = 0" "n \<noteq> 0 \<longrightarrow> total_len ?h ?c n \<le> maxSize"
      using t False by auto
    show ?thesis
    proof (cases "n = 0")
      case True
      have "StreamFrame_Length (f\<lparr> sf_Data := [x] \<rparr>) = Done (total_len ?h ?c 1)" for x
        using stream_length_eq(1)[of "f\<lparr> sf_Data := [x] \<rparr>"] w by (simp add: stream_header_def)
      then show ?thesis using False True t'(1) n by (simp add: StreamFrame_MaybeSplitOffFrame_def len)
    next
      case n0: False
      then have nd: "0 < n" "n < ?d" using t' by auto
      define g where "g = \<lparr> sf_StreamID = sf_StreamID f, sf_Offset = sf_Offset f,
          sf_Data = take (nat n) (sf_Data f), sf_Fin = False,
          sf_DataLenPresent = ?c, sf_fromPool = sf_fromPool f \<rparr>"
      have "StreamFrame_Length g = Done (total_len ?h ?c n)"
        using stream_length_eq(1)[of g] w nd by (simp add: g_def stream_header_def)
      then show ?thesis
        using False n0 n t'(4) nd w(3)
        by (simp add: StreamFrame_MaybeSplitOffFrame_def len Let_def g_def[symmetric]) (auto simp: g_def)
    qed
  qed
qed

theorem stream_frame_split_witness:
  "case StreamFrame_MaybeSplitOffFrame \<lparr> sf_StreamID = 4, sf_Offset = 7, sf_Data = [1, 2, 3, 4], sf_Fin = True,
       sf_DataLenPresent = True, sf_fromPool = False \<rparr> 6 of
      Done (Some h, _, g) \<Rightarrow> sf_Data h @ sf_Data g = [1, 2, 3, 4] \<and> sf_Offset g = 7 + int (length (sf_Data h)) \<and>
        \<not> sf_Fin h \<and> sf_Fin g
    | _ \<Rightarrow> False"
proof -
  have "wf_StreamFrame \<lparr> sf_StreamID = 4, sf_Offset = 7, sf_Data = [1, 2, 3, 4], sf_Fin = True,
       sf_DataLenPresent = True, sf_fromPool = False \<rparr>" by code_simp
  moreover have "\<exists>h g. StreamFrame_MaybeSplitOffFrame \<lparr> sf_StreamID = 4, sf_Offset = 7, sf_Data = [1, 2, 3, 4],
       sf_Fin = True, sf_DataLenPresent = True, sf_fromPool = False \<rparr> 6 = Done (Some h, True, g)"
    by (intro exI) code_simp
  ultimately show ?thesis
    using stream_frame_split[of "\<lparr> sf_StreamID = 4, sf_Offset = 7, sf_Data = [1, 2, 3, 4], sf_Fin = True,
       sf_DataLenPresent = True, sf_fromPool = False \<rparr>" 6] by auto
qed

definition crypto_header :: "CryptoFrame \<Rightarrow> int" where
  "crypto_header f = 1 + int (length (enc (to_u64 (cf_Offset f))))"

lemma crypto_length_eq:
  assumes "wf_CryptoFrame f"
  shows "CryptoFrame_Length f = Done (total_len (crypto_header f) True (int (length (cf_Data f))))"
    "CryptoFrame_MaxDataLen f m = fit_data (crypto_header f + 1) m True"
  using assms len64_in_range[of "cf_Data f"]
  by (simp_all add: wf_CryptoFrame_def CryptoFrame_Length_def CryptoFrame_MaxDataLen_def crypto_header_def
      total_len_def)



end
