(* ===== verification/Quic_Ack.thy ===== *)
theory Quic_Ack
  imports Quic_Frame_Laws
begin

text \<open>
  ACK frames (\<open>quic-go/internal/wire/ack_frame.go\<close>, \<open>ack_range.go\<close>): parsing, writing, the
  length, the truncation to a size, and the test whether a packet is acknowledged, which is a
  binary search with the algorithm of \<open>sort.Search\<close>.

  The lemmas: what is written is read back, up to the 64 ranges that are sent and the
  resolution of the delay; a truncated frame fits; the binary search agrees with the union of
  the ranges; whatever is parsed is a valid list of ranges of packet numbers.
\<close>

unbundle bit_operations_syntax

record AckRange =
  ar_Smallest :: int
  ar_Largest :: int

definition AckRange_Len :: "AckRange \<Rightarrow> int" where
  "AckRange_Len r = ar_Largest r - ar_Smallest r + 1"

record AckFrame =
  ak_AckRanges :: "AckRange list"
  ak_DelayTime :: int
  ak_ECT0 :: u64
  ak_ECT1 :: u64
  ak_ECNCE :: u64

definition MaxNumAckRanges :: nat where "MaxNumAckRanges = 64"
definition AckDelayExponent :: nat where "AckDelayExponent = 3"

definition AckFrame_Reset :: "AckFrame \<Rightarrow> AckFrame" where
  "AckFrame_Reset f = f\<lparr> ak_DelayTime := 0, ak_ECT0 := 0, ak_ECT1 := 0, ak_ECNCE := 0, ak_AckRanges := [] \<rparr>"

fun consistent_from :: "AckRange \<Rightarrow> AckRange list \<Rightarrow> bool" where
  "consistent_from lastAckRange [] = True"
| "consistent_from lastAckRange (ackRange # rs) =
     (if ar_Smallest lastAckRange \<le> ar_Smallest ackRange then False
      else if ar_Smallest lastAckRange \<le> ar_Largest ackRange + 1 then False
      else consistent_from ackRange rs)"

definition validateAckRanges :: "AckFrame \<Rightarrow> bool" where
  "validateAckRanges f =
     (case ak_AckRanges f of [] \<Rightarrow> False
      | r # rs \<Rightarrow> list_all (\<lambda>r. \<not> ar_Smallest r > ar_Largest r) (r # rs) \<and> consistent_from r rs)"

section \<open>Parsing\<close>

lemma varint_cong [fundef_cong]:
  "b = b' \<Longrightarrow> (\<And>v l. Parse b' = Inr (v, l) \<Longrightarrow> k v (drop l b') = k' v (drop l b')) \<Longrightarrow>
   varint b k = varint b' k'"
  by (auto simp: varint_def split: sum.splits)

lemma Parse_pos: "Parse b = Inr (v, l) \<Longrightarrow> 0 < l \<and> l \<le> length b"
  using Parse_bounds[of b v l] by auto

text \<open>The loop over the ranges after the first, which returns the ranges and what is left.\<close>

function ack_ranges_loop :: "int \<Rightarrow> int \<Rightarrow> AckRange list \<Rightarrow> bytes \<Rightarrow> frame_error + AckRange list \<times> bytes" where
  "ack_ranges_loop n smallest acc b =
     (if n \<le> 0 then Inr (acc, b)
      else varint b (\<lambda>g b.
        let gap = to_i64 g
        in if smallest < gap + 2 then Inl InvalidAckRanges
           else let largest = smallest - gap - 2
                in varint b (\<lambda>ab b.
                     let ackBlock = to_i64 ab
                     in if ackBlock > largest then Inl InvalidAckRanges
                        else let smallest = largest - ackBlock
                             in ack_ranges_loop (n - 1) smallest
                                  (acc @ [\<lparr> ar_Smallest = smallest, ar_Largest = largest \<rparr>]) b)))"
  by pat_completeness auto
termination
  by (relation "measure (\<lambda>(n, s, a, b). length b)") (auto dest!: Parse_pos)

declare ack_ranges_loop.simps [simp del]

definition ack_delay :: "u64 \<Rightarrow> nat \<Rightarrow> int" where
  "ack_delay delay ackDelayExponent =
     (let delayTime = wrap64 (to_i64 (push_bit ackDelayExponent (delay * 1)) * Microsecond)
      in if delayTime < 0 then max_int64 else delayTime)"

text \<open>The end of the parser: the ECN counts, if the type of the frame says they are there.\<close>

definition ack_ecn :: "AckFrame \<Rightarrow> bool \<Rightarrow> bytes \<Rightarrow> bytes \<Rightarrow> frame_error + AckFrame \<times> int" where
  "ack_ecn frame ecn start b =
     (if ecn then
        varint b (\<lambda>ect0 b. varint b (\<lambda>ect1 b. varint b (\<lambda>ecnce b.
          Inr (frame\<lparr> ak_ECT0 := ect0, ak_ECT1 := ect1, ak_ECNCE := ecnce \<rparr>, consumed start b))))
      else Inr (frame, consumed start b))"

text \<open>
  The frame that the parser fills is one that was reset; the ranges are appended to it.
\<close>

definition parseAckFrame :: "AckFrame \<Rightarrow> bytes \<Rightarrow> FrameType \<Rightarrow> nat \<Rightarrow> frame_error + AckFrame \<times> int" where
  "parseAckFrame frame start typ ackDelayExponent =
     (let ecn = (typ = FrameTypeAckECN) in
      varint start (\<lambda>la b.
        let largestAcked = to_i64 la in
        varint b (\<lambda>delay b.
          let frame = frame\<lparr> ak_DelayTime := ack_delay delay ackDelayExponent \<rparr> in
          varint b (\<lambda>numBlocks b. varint b (\<lambda>ab b.
            let ackBlock = to_i64 ab in
            if ackBlock > largestAcked then Inl InvalidFirstAckRange
            else
              let smallest = largestAcked - ackBlock;
                  first = ak_AckRanges frame @ [\<lparr> ar_Smallest = smallest, ar_Largest = largestAcked \<rparr>]
              in case ack_ranges_loop (uint numBlocks) smallest first b of
                   Inl e \<Rightarrow> Inl e
                 | Inr (ranges, b) \<Rightarrow>
                     let frame = frame\<lparr> ak_AckRanges := ranges \<rparr> in
                     if \<not> validateAckRanges frame then Inl InvalidAckRanges
                     else ack_ecn frame ecn start b)))))"

section \<open>Writing\<close>

definition encodeAckDelay :: "int \<Rightarrow> u64" where
  "encodeAckDelay delay = to_u64 (delay sdiv (1000 * 2 ^ AckDelayExponent))"

definition encodeAckRange :: "AckRange list \<Rightarrow> nat \<Rightarrow> u64 \<times> u64" where
  "encodeAckRange rs i =
     (if i = 0 then (0, to_u64 (ar_Largest (rs ! 0) - ar_Smallest (rs ! 0)))
      else (to_u64 (ar_Smallest (rs ! (i - 1)) - ar_Largest (rs ! i) - 2),
            to_u64 (ar_Largest (rs ! i) - ar_Smallest (rs ! i))))"

definition LargestAcked :: "AckFrame \<Rightarrow> int outcome" where
  "LargestAcked f = (case ak_AckRanges f of [] \<Rightarrow> Panic | r # _ \<Rightarrow> Done (ar_Largest r))"

definition LowestAcked :: "AckFrame \<Rightarrow> int outcome" where
  "LowestAcked f = (if ak_AckRanges f = [] then Panic else Done (ar_Smallest (last (ak_AckRanges f))))"

definition hasECN :: "AckFrame \<Rightarrow> bool" where
  "hasECN f \<longleftrightarrow> ak_ECT0 f > 0 \<or> ak_ECT1 f > 0 \<or> ak_ECNCE f > 0"

definition ecn_counts :: "AckFrame \<Rightarrow> u64 list" where
  "ecn_counts f = (if hasECN f then [ak_ECT0 f, ak_ECT1 f, ak_ECNCE f] else [])"

definition more_ranges :: "AckRange list \<Rightarrow> nat \<Rightarrow> u64 list" where
  "more_ranges rs numRanges = concat (map (\<lambda>i. [fst (encodeAckRange rs i), snd (encodeAckRange rs i)]) [1..<numRanges])"

definition AckFrame_Append :: "bytes \<Rightarrow> AckFrame \<Rightarrow> bytes outcome" where
  "AckFrame_Append b f =
     (let rs = ak_AckRanges f; numRanges = min (length rs) MaxNumAckRanges in
      bind_outcome (LargestAcked f) (\<lambda>largestAcked.
        append_all (b @ [if hasECN f then ucast FrameTypeAckECN else ucast FrameTypeAck])
          ([to_u64 largestAcked, encodeAckDelay (ak_DelayTime f), to_u64 (int numRanges - 1),
            snd (encodeAckRange rs 0)] @ more_ranges rs numRanges @ ecn_counts f)))"

definition AckFrame_Length :: "AckFrame \<Rightarrow> int outcome" where
  "AckFrame_Length f =
     (let rs = ak_AckRanges f in
      bind_outcome (LargestAcked f) (\<lambda>largestAcked.
        add_lens 2 ([to_u64 largestAcked, encodeAckDelay (ak_DelayTime f),
                     to_u64 (largestAcked - ar_Smallest (rs ! 0))] @
                    more_ranges rs (min (length rs) MaxNumAckRanges) @ ecn_counts f)))"

section \<open>Truncation\<close>

function encodable_loop :: "AckRange list \<Rightarrow> nat \<Rightarrow> int \<Rightarrow> nat \<Rightarrow> int \<Rightarrow> nat outcome" where
  "encodable_loop rs numRanges maxSize i len =
     (if i < numRanges then
        bind_outcome (add_lens 0 [fst (encodeAckRange rs i), snd (encodeAckRange rs i)]) (\<lambda>rangeLen.
          if len + rangeLen > maxSize then Done i
          else encodable_loop rs numRanges maxSize (i + 1) (len + rangeLen))
      else Done numRanges)"
  by pat_completeness auto
termination
  by (relation "measure (\<lambda>(rs, n, m, i, l). n - i)") auto

declare encodable_loop.simps [simp del]

definition numEncodableAckRanges :: "AckFrame \<Rightarrow> int \<Rightarrow> nat outcome" where
  "numEncodableAckRanges f maxSize =
     (let rs = ak_AckRanges f; numRanges = min (length rs) MaxNumAckRanges;
          len = 1 + 8 + 8 + 1 + 8 + (if hasECN f then 8 + 8 + 8 else 0) + 2 * 8 * (int numRanges - 1)
      in if len \<le> maxSize then Done numRanges
         else bind_outcome (LargestAcked f) (\<lambda>largestAcked.
           bind_outcome (add_lens 2 ([to_u64 largestAcked, encodeAckDelay (ak_DelayTime f),
                                      snd (encodeAckRange rs 0)] @ ecn_counts f)) (\<lambda>len.
             encodable_loop rs numRanges maxSize 1 len)))"

definition Truncate :: "AckFrame \<Rightarrow> int \<Rightarrow> AckFrame outcome" where
  "Truncate f maxSize =
     bind_outcome (numEncodableAckRanges f maxSize) (\<lambda>n. Done (f\<lparr> ak_AckRanges := take n (ak_AckRanges f) \<rparr>))"

section \<open>Acknowledged packets\<close>

definition HasMissingRanges :: "AckFrame \<Rightarrow> bool" where
  "HasMissingRanges f \<longleftrightarrow> length (ak_AckRanges f) > 1"

text \<open>\<open>sort.Search\<close>.\<close>

function search_loop :: "(nat \<Rightarrow> bool) \<Rightarrow> nat \<Rightarrow> nat \<Rightarrow> nat" where
  "search_loop p i j =
     (if i < j then let h = (i + j) div 2 in if \<not> p h then search_loop p (h + 1) j else search_loop p i h
      else i)"
  by pat_completeness auto
termination
  by (relation "measure (\<lambda>(p, i, j). j - i)") auto

declare search_loop.simps [simp del]

definition sort_Search :: "nat \<Rightarrow> (nat \<Rightarrow> bool) \<Rightarrow> nat" where
  "sort_Search n p = search_loop p 0 n"

definition AcksPacket :: "AckFrame \<Rightarrow> int \<Rightarrow> bool outcome" where
  "AcksPacket f p =
     bind_outcome (LowestAcked f) (\<lambda>lowest. bind_outcome (LargestAcked f) (\<lambda>largest.
       if p < lowest \<or> p > largest then Done False
       else let rs = ak_AckRanges f; i = sort_Search (length rs) (\<lambda>i. p \<ge> ar_Smallest (rs ! i))
            in if i < length rs then Done (p \<le> ar_Largest (rs ! i)) else Panic))"

section \<open>Descending ranges\<close>

text \<open>Ranges that descend from below \<open>s\<close> with a gap of at least one packet.\<close>

fun descending :: "int \<Rightarrow> AckRange list \<Rightarrow> bool" where
  "descending s [] = True"
| "descending s (r # rs) \<longleftrightarrow>
     ar_Largest r + 2 \<le> s \<and> ar_Smallest r \<le> ar_Largest r \<and> 0 \<le> ar_Smallest r \<and> descending (ar_Smallest r) rs"

definition ranges_ok :: "AckRange list \<Rightarrow> bool" where
  "ranges_ok rs \<longleftrightarrow> rs \<noteq> [] \<and> descending (2 ^ 62 + 1) rs"

lemma descending_validate:
  "descending s (r # rs) \<longleftrightarrow> ar_Largest r + 2 \<le> s \<and>
     list_all (\<lambda>r. \<not> ar_Smallest r > ar_Largest r \<and> 0 \<le> ar_Smallest r) (r # rs) \<and> consistent_from r rs"
  by (induction rs arbitrary: s r) auto

lemma ranges_ok_iff:
  "ranges_ok (ak_AckRanges f) \<longleftrightarrow> validateAckRanges f \<and>
     ar_Largest (hd (ak_AckRanges f)) < 2 ^ 62 \<and> list_all (\<lambda>r. 0 \<le> ar_Smallest r) (ak_AckRanges f)"
  by (cases "ak_AckRanges f")
     (auto simp: ranges_ok_def validateAckRanges_def descending_validate list_all_iff simp del: descending.simps)

lemma descending_take: "descending s rs \<Longrightarrow> descending s (take n rs)"
  by (induction rs arbitrary: s n) (auto simp: take_Cons')

lemma descending_append:
  "descending s (xs @ ys) \<longleftrightarrow> descending s xs \<and> descending (if xs = [] then s else ar_Smallest (last xs)) ys"
  by (induction xs arbitrary: s) auto

lemma descending_below: "descending s rs \<Longrightarrow> r \<in> set rs \<Longrightarrow> ar_Largest r + 2 \<le> s \<and> 0 \<le> ar_Smallest r \<and> ar_Smallest r \<le> ar_Largest r"
  by (induction rs arbitrary: s) force+

lemma ranges_ok_bounds:
  assumes "ranges_ok rs" "r \<in> set rs"
  shows "0 \<le> ar_Smallest r" "ar_Smallest r \<le> ar_Largest r" "ar_Largest r < 2 ^ 62"
  using assms descending_below[of "2 ^ 62 + 1" rs r] by (auto simp: ranges_ok_def)

section \<open>The wire format of the ranges\<close>

fun pairs :: "int \<Rightarrow> AckRange list \<Rightarrow> u64 list" where
  "pairs s [] = []"
| "pairs s (r # rs) = to_u64 (s - ar_Largest r - 2) # to_u64 (ar_Largest r - ar_Smallest r) # pairs (ar_Smallest r) rs"

lemma pairs_append: "pairs s (xs @ ys) = pairs s xs @ pairs (if xs = [] then s else ar_Smallest (last xs)) ys"
  by (induction xs arbitrary: s) auto

lemma more_ranges_pairs:
  assumes "rs \<noteq> []" "1 \<le> n" "n \<le> length rs"
  shows "more_ranges rs n = pairs (ar_Smallest (hd rs)) (take (n - 1) (tl rs))"
  using assms(2,3)
proof (induction n rule: dec_induct)
  case base
  then show ?case by (simp add: more_ranges_def)
next
  case (step n)
  then have n: "n < length rs" "1 \<le> n" by auto
  have t: "take n (tl rs) = take (n - 1) (tl rs) @ [rs ! n]"
    using n take_Suc_conv_app_nth[of "n - 1" "tl rs"] by (simp add: nth_tl)
  have prev: "(if take (n - 1) (tl rs) = [] then ar_Smallest (hd rs) else ar_Smallest (last (take (n - 1) (tl rs)))) =
      ar_Smallest (rs ! (n - 1))"
  proof (cases "n = 1")
    case True
    then show ?thesis using assms(1) by (simp add: hd_conv_nth)
  next
    case False
    then have ne: "take (n - 1) (tl rs) \<noteq> []" using n by (cases rs) (auto simp: take_eq_Nil)
    have "last (take (n - 1) (tl rs)) = tl rs ! (n - 2)"
      unfolding last_conv_nth[OF ne] using n False by (simp add: min_def numeral_2_eq_2)
    also have "\<dots> = rs ! Suc (n - 2)" using n False by (intro nth_tl) auto
    also have "Suc (n - 2) = n - 1" using n False by auto
    finally show ?thesis using ne by simp
  qed
  have "pairs (ar_Smallest (hd rs)) (take n (tl rs)) = pairs (ar_Smallest (hd rs)) (take (n - 1) (tl rs)) @
      [to_u64 (ar_Smallest (rs ! (n - 1)) - ar_Largest (rs ! n) - 2), to_u64 (ar_Largest (rs ! n) - ar_Smallest (rs ! n))]"
    unfolding t pairs_append prev by simp
  moreover have "more_ranges rs (Suc n) = more_ranges rs n @
      [to_u64 (ar_Smallest (rs ! (n - 1)) - ar_Largest (rs ! n) - 2), to_u64 (ar_Largest (rs ! n) - ar_Smallest (rs ! n))]"
    using n by (simp add: more_ranges_def encodeAckRange_def)
  ultimately show ?case using step.IH n by simp
qed

lemma pairs_in_range: "descending s rs \<Longrightarrow> s \<le> 2 ^ 62 + 1 \<Longrightarrow> list_all in_range (pairs s rs)"
proof (induction rs arbitrary: s)
  case (Cons r rs)
  then have "fits (s - ar_Largest r - 2)" "fits (ar_Largest r - ar_Smallest r)" by (auto simp: fits_def)
  moreover have "ar_Smallest r \<le> 2 ^ 62 + 1" using Cons.prems by auto
  ultimately show ?case using Cons by simp
qed simp

lemma ack_ranges_loop_0: "ack_ranges_loop 0 s acc b = Inr (acc, b)"
  by (subst ack_ranges_loop.simps) simp

lemma ack_ranges_loop_pairs:
  "descending s rs \<Longrightarrow> s \<le> 2 ^ 62 + 1 \<Longrightarrow>
   ack_ranges_loop (int (length rs)) s acc (concat (map enc (pairs s rs)) @ r) = Inr (acc @ rs, r)"
proof (induction rs arbitrary: s acc)
  case Nil
  then show ?case by (simp add: ack_ranges_loop_0)
next
  case (Cons x rs)
  then have f: "fits (s - ar_Largest x - 2)" "fits (ar_Largest x - ar_Smallest x)" by (auto simp: fits_def)
  have x: "\<lparr> ar_Smallest = ar_Smallest x, ar_Largest = ar_Largest x \<rparr> = x" by simp
  have d: "descending (ar_Smallest x) rs" "ar_Smallest x \<le> 2 ^ 62 + 1" "0 \<le> ar_Smallest x"
    "0 \<le> ar_Largest x" using Cons.prems by auto
  show ?case
    by (subst ack_ranges_loop.simps) (simp add: f Let_def Cons.IH[OF d(1,2)] d(3,4) not_less x)
qed

section \<open>Round trip\<close>

definition wf_AckFrame :: "AckFrame \<Rightarrow> bool" where
  "wf_AckFrame f \<longleftrightarrow> ranges_ok (ak_AckRanges f) \<and> 0 \<le> ak_DelayTime f \<and> ak_DelayTime f \<le> max_int64 \<and>
     in_range (ak_ECT0 f) \<and> in_range (ak_ECT1 f) \<and> in_range (ak_ECNCE f)"

definition empty_ack :: AckFrame where
  "empty_ack = \<lparr> ak_AckRanges = [], ak_DelayTime = 0, ak_ECT0 = 0, ak_ECT1 = 0, ak_ECNCE = 0 \<rparr>"

text \<open>What of a frame arrives: 64 ranges, and the delay in units of 8 microseconds.\<close>

definition received_ack :: "AckFrame \<Rightarrow> AckFrame" where
  "received_ack f = f\<lparr> ak_AckRanges := take MaxNumAckRanges (ak_AckRanges f),
                       ak_DelayTime := ak_DelayTime f div 8000 * 8000 \<rparr>"

definition ack_type :: "AckFrame \<Rightarrow> FrameType" where
  "ack_type f = (if hasECN f then FrameTypeAckECN else FrameTypeAck)"

lemma ack_delay_roundtrip:
  assumes "0 \<le> d" "d \<le> max_int64"
  shows "in_range (encodeAckDelay d)" "ack_delay (encodeAckDelay d) AckDelayExponent = d div 8000 * 8000"
proof -
  have e: "encodeAckDelay d = to_u64 (d div 8000)"
    using assms(1) by (simp add: encodeAckDelay_def AckDelayExponent_def sdiv_pos)
  have q: "d div 8000 \<le> max_int64 div 8000" using assms(2) by (rule zdiv_mono1) simp
  have q0: "0 \<le> d div 8000" using assms(1) by simp
  have f: "fits (d div 8000)" "fits (8 * (d div 8000))"
    using q q0 by (auto simp: fits_def max_int64_def)
  then show "in_range (encodeAckDelay d)" by (simp add: e)
  have "push_bit 3 (to_u64 (d div 8000)) = to_u64 (8 * (d div 8000))"
    by (simp add: to_u64_def push_bit_eq_mult mult.commute)
  moreover have "wrap64 (8 * (d div 8000) * 1000) = d div 8000 * 8000"
    using q q0 by (subst wrap64_id) (auto simp: min_int64_def max_int64_def)
  ultimately show "ack_delay (encodeAckDelay d) AckDelayExponent = d div 8000 * 8000"
    using f q0 by (simp add: ack_delay_def e AckDelayExponent_def Microsecond_def Let_def)
qed

lemma no_ecn: "\<not> hasECN f \<Longrightarrow> ak_ECT0 f = 0 \<and> ak_ECT1 f = 0 \<and> ak_ECNCE f = 0"
  by (auto simp: hasECN_def word_neq_0_conv[symmetric])

lemma ack_written:
  assumes "wf_AckFrame f"
  shows "\<exists>e. \<forall>b r. AckFrame_Append b f = Done (b @ enc (ack_type f) @ e) \<and>
           AckFrame_Length f = Done (int (length (enc (ack_type f) @ e))) \<and>
           parseAckFrame empty_ack (e @ r) (ack_type f) AckDelayExponent = Inr (received_ack f, int (length e))"
proof -
  obtain x xs where rs: "ak_AckRanges f = x # xs" using assms by (cases "ak_AckRanges f") (auto simp: wf_AckFrame_def ranges_ok_def)
  define ys where "ys = take (MaxNumAckRanges - 1) xs"
  have m: "min (length (ak_AckRanges f)) MaxNumAckRanges = Suc (length ys)"
    by (simp add: rs ys_def MaxNumAckRanges_def)
  have "ranges_ok (x # xs)" using assms rs by (simp add: wf_AckFrame_def)
  then have d: "descending (2 ^ 62 + 1) (x # ys)"
    using descending_take[of "2 ^ 62 + 1" "x # xs" MaxNumAckRanges]
    by (simp add: ranges_ok_def ys_def MaxNumAckRanges_def)
  then have x: "fits (ar_Largest x)" "fits (ar_Largest x - ar_Smallest x)" "0 \<le> ar_Smallest x"
      "ar_Smallest x \<le> 2 ^ 62 + 1" "descending (ar_Smallest x) ys" "ar_Smallest x \<le> ar_Largest x"
    by (auto simp: fits_def)
  have tk: "take MaxNumAckRanges (x # xs) = x # ys" by (simp add: ys_def MaxNumAckRanges_def)
  have mr: "more_ranges (x # xs) (Suc (length ys)) = pairs (ar_Smallest x) ys"
  proof -
    have "take (length ys) xs = ys" by (metis ys_def append_eq_conv_conj append_take_drop_id)
    moreover have "length ys \<le> length xs" by (simp add: ys_def)
    ultimately show ?thesis using more_ranges_pairs[of "x # xs" "Suc (length ys)"] by simp
  qed
  have v: "ak_AckRanges g = x # ys \<Longrightarrow> validateAckRanges g" for g
    using ranges_ok_iff[of g] d by (simp add: ranges_ok_def)
  have n: "fits (int (length ys))" by (simp add: fits_def ys_def MaxNumAckRanges_def)
  then have l1: "length (enc (to_u64 (int (length ys)))) = 1"
    using enc_len_small(2)[of "int (length ys)"] by (simp add: ys_def MaxNumAckRanges_def)
  have un: "uint (to_u64 (int (length ys))) = int (length ys)"
    using n by (intro uint_to_u64) (auto simp: fits_def)
  have w: "in_range (encodeAckDelay (ak_DelayTime f))"
      "ack_delay (encodeAckDelay (ak_DelayTime f)) AckDelayExponent = ak_DelayTime f div 8000 * 8000"
      "in_range (ak_ECT0 f)" "in_range (ak_ECT1 f)" "in_range (ak_ECNCE f)"
    using assms ack_delay_roundtrip[of "ak_DelayTime f"] by (auto simp: wf_AckFrame_def)
  have ecn: "list_all in_range (ecn_counts f)" using w by (simp add: ecn_counts_def)
  have p: "list_all in_range (pairs (ar_Smallest x) ys)" using x by (intro pairs_in_range)
  have xx: "\<lparr> ar_Smallest = ar_Smallest x, ar_Largest = ar_Largest x \<rparr> = x" by simp
  have t: "enc (ack_type f) = [if hasECN f then ucast FrameTypeAckECN else ucast FrameTypeAck]"
      "in_range (ack_type f)" "ack_type f = FrameTypeAckECN \<longleftrightarrow> hasECN f"
    by (auto simp: ack_type_def codec_defs)
  let ?e = "enc (to_u64 (ar_Largest x)) @ enc (encodeAckDelay (ak_DelayTime f)) @
     enc (to_u64 (int (length ys))) @ enc (to_u64 (ar_Largest x - ar_Smallest x)) @
     concat (map enc (pairs (ar_Smallest x) ys)) @ concat (map enc (ecn_counts f))"
  show ?thesis
  proof (rule exI[of _ ?e], intro allI conjI)
    fix b r
    show "AckFrame_Append b f = Done (b @ enc (ack_type f) @ ?e)"
      using x n w p ecn m by (simp add: AckFrame_Append_def LargestAcked_def rs mr encodeAckRange_def t)
    show "AckFrame_Length f = Done (int (length (enc (ack_type f) @ ?e)))"
      using x n w p ecn m l1 by (simp add: AckFrame_Length_def LargestAcked_def rs mr t)
    show "parseAckFrame empty_ack (?e @ r) (ack_type f) AckDelayExponent = Inr (received_ack f, int (length ?e))"
      using x n w(1,3-) no_ecn[of f]
        ack_ranges_loop_pairs[OF x(5,4), of "[x]" "concat (map enc (ecn_counts f)) @ r"]
      by (cases "hasECN f")
         (simp_all add: parseAckFrame_def ack_ecn_def Let_def t un xx empty_ack_def v w(2) ecn_counts_def
           received_ack_def rs tk consumed_def)
  qed
qed

section \<open>What the parser accepts\<close>

lemma ack_ranges_loop_ok:
  assumes "ack_ranges_loop n s acc b = Inr (rs, c)" "acc \<noteq> []" "descending m acc" "s = ar_Smallest (last acc)"
  shows "rs \<noteq> [] \<and> descending m rs \<and> length c \<le> length b"
  using assms
proof (induction n s acc b rule: ack_ranges_loop.induct)
  case (1 n s acc b)
  show ?case
  proof (cases "n \<le> 0")
    case True
    then show ?thesis using 1 by (subst (asm) ack_ranges_loop.simps) simp
  next
    case False
    have "varint b (\<lambda>g b. if s < to_i64 g + 2 then Inl InvalidAckRanges
        else varint b (\<lambda>ab b. if to_i64 ab > s - to_i64 g - 2 then Inl InvalidAckRanges
               else ack_ranges_loop (n - 1) (s - to_i64 g - 2 - to_i64 ab)
                 (acc @ [\<lparr> ar_Smallest = s - to_i64 g - 2 - to_i64 ab, ar_Largest = s - to_i64 g - 2 \<rparr>]) b)) = Inr (rs, c)"
      using 1(2) False unfolding ack_ranges_loop.simps[of n s acc b] Let_def by simp
    then obtain g l a k where g: "Parse b = Inr (g, l)" "in_range g" "l \<le> length b" "\<not> s < to_i64 g + 2"
      and a: "Parse (drop l b) = Inr (a, k)" "in_range a" "k \<le> length (drop l b)" "\<not> to_i64 a > s - to_i64 g - 2"
      and loop: "ack_ranges_loop (n - 1) (s - to_i64 g - 2 - to_i64 a)
                 (acc @ [\<lparr> ar_Smallest = s - to_i64 g - 2 - to_i64 a, ar_Largest = s - to_i64 g - 2 \<rparr>])
                 (drop k (drop l b)) = Inr (rs, c)"
      by (elim varint_within) (auto elim!: varint_within split: if_splits)
    have "rs \<noteq> [] \<and> descending m rs \<and> length c \<le> length (drop k (drop l b))"
      by (rule 1(1)[OF False g(1) refl g(4) refl a(1) refl a(4) refl loop])
         (use 1(3-5) g(2,4) a(2,4) to_i64_bounds[of g] to_i64_bounds[of a] in \<open>auto simp: descending_append\<close>)
    then show ?thesis by auto
  qed
qed

lemma ack_delay_bounds: "0 \<le> ack_delay d e \<and> ack_delay d e \<le> max_int64"
  using wrap64_range by (auto simp: ack_delay_def Let_def max_int64_def)

lemma length_drop_le: "length (drop n b) \<le> length b"
  by simp

lemma ack_parsed:
  assumes "parseAckFrame empty_ack b t e = Inr (f, n)"
  shows "wf_AckFrame f \<and> 0 \<le> n \<and> n \<le> int (length b)"
proof -
  from assms[unfolded parseAckFrame_def Let_def] obtain la delay ab c and nb :: u64 where
      la: "in_range la" and ab: "in_range ab" and c: "length c \<le> length b"
    and E: "(if to_i64 ab > to_i64 la then Inl InvalidFirstAckRange
      else case ack_ranges_loop (uint nb) (to_i64 la - to_i64 ab)
             (ak_AckRanges (empty_ack\<lparr> ak_DelayTime := ack_delay delay e \<rparr>) @
              [\<lparr> ar_Smallest = to_i64 la - to_i64 ab, ar_Largest = to_i64 la \<rparr>]) c of
           Inl e \<Rightarrow> Inl e
         | Inr (ranges, d) \<Rightarrow>
             if \<not> validateAckRanges (empty_ack\<lparr> ak_DelayTime := ack_delay delay e, ak_AckRanges := ranges \<rparr>)
             then Inl InvalidAckRanges
             else ack_ecn (empty_ack\<lparr> ak_DelayTime := ack_delay delay e, ak_AckRanges := ranges \<rparr>)
                    (t = FrameTypeAckECN) b d) = Inr (f, n)"
  proof (elim varint_within, goal_cases)
    case (1 la l1 delay l2 nb l3 ab l4)
    show ?case
      by (rule 1(1)[where la = la and ab = ab and c = "drop l4 (drop l3 (drop l2 (drop l1 b)))" and
            delay = delay and nb = nb]) (use 1 in simp_all)
  qed
  from E obtain ranges d where lt: "\<not> to_i64 ab > to_i64 la"
    and loop: "ack_ranges_loop (uint nb) (to_i64 la - to_i64 ab)
        [\<lparr> ar_Smallest = to_i64 la - to_i64 ab, ar_Largest = to_i64 la \<rparr>] c = Inr (ranges, d)"
    and rest: "ack_ecn (empty_ack\<lparr> ak_DelayTime := ack_delay delay e, ak_AckRanges := ranges \<rparr>)
        (t = FrameTypeAckECN) b d = Inr (f, n)"
    by (auto simp: empty_ack_def split: if_split_asm sum.splits)
  have "ranges \<noteq> [] \<and> descending (2 ^ 62 + 1) ranges \<and> length d \<le> length c"
    by (rule ack_ranges_loop_ok[OF loop])
       (use ab la lt to_i64_bounds[of la] to_i64_bounds[of ab] in auto)
  then have rs: "ranges_ok ranges" "length d \<le> length b" using c by (auto simp: ranges_ok_def)
  show ?thesis
    using rest rs ack_delay_bounds[of delay e]
    by (auto simp: ack_ecn_def wf_AckFrame_def empty_ack_def consumed_def
        elim!: varint_within split: if_splits)
qed

interpretation ack: frame_codec "\<lambda>f. wf_AckFrame f \<and> received_ack f = f" ack_type
  "\<lambda>t b. parseAckFrame empty_ack b t AckDelayExponent" "\<lambda>b f. ok (AckFrame_Append b f)" AckFrame_Length
proof (unfold_locales, goal_cases)
  case (2 f)
  then show ?case using ack_written[of f] by auto
qed (auto simp: ack_type_def codec_defs dest: ack_parsed)

section \<open>The binary search\<close>

lemma search_loop_spec:
  assumes "i \<le> j" "j \<le> n" "\<And>k m. p k \<Longrightarrow> k \<le> m \<Longrightarrow> m < n \<Longrightarrow> p m"
    "\<And>k. k < i \<Longrightarrow> \<not> p k" "\<And>k. j \<le> k \<Longrightarrow> k < n \<Longrightarrow> p k"
  shows "i \<le> search_loop p i j \<and> search_loop p i j \<le> j \<and> (\<forall>k < search_loop p i j. \<not> p k) \<and>
         (\<forall>k. search_loop p i j \<le> k \<and> k < n \<longrightarrow> p k)"
  using assms
proof (induction p i j rule: search_loop.induct)
  case (1 p i j)
  show ?case
  proof (cases "i < j")
    case False
    then show ?thesis using 1(3-) by (subst (1 2 3 4) search_loop.simps) auto
  next
    case True
    define h where "h = (i + j) div 2"
    have h: "i \<le> h" "h < j" using True by (auto simp: h_def)
    show ?thesis
    proof (cases "p h")
      case True
      have "search_loop p i j = search_loop p i h"
        using \<open>i < j\<close> True by (subst search_loop.simps) (simp add: h_def)
      moreover have "i \<le> search_loop p i h \<and> search_loop p i h \<le> h \<and> (\<forall>k < search_loop p i h. \<not> p k) \<and>
         (\<forall>k. search_loop p i h \<le> k \<and> k < n \<longrightarrow> p k)"
        by (rule 1(2)[OF \<open>i < j\<close> h_def]) (use True h 1(3-) in auto)
      ultimately show ?thesis using h by simp
    next
      case False
      have "\<not> p k" if "k < h + 1" for k
        using 1(5)[of k h] that False h 1(4) by (metis less_Suc_eq_le Suc_eq_plus1 order_less_le_trans)
      then have "h + 1 \<le> search_loop p (h + 1) j \<and> search_loop p (h + 1) j \<le> j \<and>
          (\<forall>k < search_loop p (h + 1) j. \<not> p k) \<and> (\<forall>k. search_loop p (h + 1) j \<le> k \<and> k < n \<longrightarrow> p k)"
        by (intro 1(1)[OF \<open>i < j\<close> h_def]) (use False h 1(3-) in auto)
      moreover have "search_loop p i j = search_loop p (h + 1) j"
        using \<open>i < j\<close> False by (subst search_loop.simps) (simp add: h_def)
      ultimately show ?thesis using h by simp
    qed
  qed
qed

lemma descending_nth:
  assumes "descending s rs" "i < j" "j < length rs"
  shows "ar_Largest (rs ! j) + 2 \<le> ar_Smallest (rs ! i)"
  using assms
proof (induction rs arbitrary: s i j)
  case (Cons r rs)
  show ?case
  proof (cases i)
    case 0
    then show ?thesis using Cons.prems descending_below[of "ar_Smallest r" rs "rs ! (j - 1)"] by (cases j) auto
  next
    case (Suc k)
    then show ?thesis using Cons by (cases j) auto
  qed
qed simp

lemma AcksPacket_spec:
  assumes "ranges_ok (ak_AckRanges f)"
  shows "AcksPacket f p = Done (\<exists>r \<in> set (ak_AckRanges f). ar_Smallest r \<le> p \<and> p \<le> ar_Largest r)"
proof -
  define rs where "rs = ak_AckRanges f"
  have ne: "rs \<noteq> []" and d: "descending (2 ^ 62 + 1) rs" using assms by (auto simp: ranges_ok_def rs_def)
  have in_r: "ar_Smallest (rs ! i) \<le> ar_Largest (rs ! i)" if "i < length rs" for i
    using descending_below[OF d, of "rs ! i"] that by auto
  have less: "ar_Largest (rs ! j) < ar_Smallest (rs ! i)" if "i < j" "j < length rs" for i j
    using descending_nth[OF d that] by simp
  have low: "ar_Smallest (last rs) \<le> ar_Smallest r" "ar_Largest r \<le> ar_Largest (hd rs)" if r: "r \<in> set rs" for r
  proof -
    obtain i where i: "i < length rs" "r = rs ! i" using r by (auto simp: in_set_conv_nth)
    show "ar_Smallest (last rs) \<le> ar_Smallest r"
    proof (cases "i = length rs - 1")
      case False
      then have "i < length rs - 1" "length rs - 1 < length rs" using i by auto
      then show ?thesis using less[of i "length rs - 1"] in_r[of "length rs - 1"] i ne
        by (simp add: last_conv_nth)
    qed (use i ne in \<open>simp add: last_conv_nth\<close>)
    show "ar_Largest r \<le> ar_Largest (hd rs)"
      using less[of 0 i] in_r[of 0] i ne by (cases "i = 0") (auto simp: hd_conv_nth)
  qed
  have LL: "LowestAcked f = Done (ar_Smallest (last rs))" "LargestAcked f = Done (ar_Largest (hd rs))"
    using ne by (auto simp: LowestAcked_def LargestAcked_def rs_def split: list.splits)
  show ?thesis
  proof (cases "p < ar_Smallest (last rs) \<or> p > ar_Largest (hd rs)")
    case True
    then show ?thesis using low LL by (force simp: AcksPacket_def rs_def)
  next
    case False
    define q where "q = (\<lambda>i. p \<ge> ar_Smallest (rs ! i))"
    define i where "i = sort_Search (length rs) q"
    have mono: "q m" if "q k" "k \<le> m" "m < length rs" for k m
      using less[of k m] in_r[of m] that by (cases "k = m") (auto simp: q_def)
    have spec: "i \<le> length rs" "\<forall>k < i. \<not> q k" "\<forall>k. i \<le> k \<and> k < length rs \<longrightarrow> q k"
      using search_loop_spec[of 0 "length rs" "length rs" q] mono by (auto simp: i_def sort_Search_def)
    have "q (length rs - 1)" using False ne by (simp add: q_def last_conv_nth)
    then have i: "i < length rs" using spec(1,2) ne by (cases "i = length rs") auto
    have "(\<exists>r \<in> set rs. ar_Smallest r \<le> p \<and> p \<le> ar_Largest r) \<longleftrightarrow> p \<le> ar_Largest (rs ! i)"
    proof
      assume "\<exists>r \<in> set rs. ar_Smallest r \<le> p \<and> p \<le> ar_Largest r"
      then obtain j where j: "j < length rs" "ar_Smallest (rs ! j) \<le> p" "p \<le> ar_Largest (rs ! j)"
        by (auto simp: in_set_conv_nth)
      then have "\<not> j < i" using spec(2) by (auto simp: q_def)
      moreover have "\<not> i < j" using less[of i j] j spec(3) i by (force simp: q_def)
      ultimately show "p \<le> ar_Largest (rs ! i)" using j by (cases "i = j") auto
    qed (use i spec(3) in \<open>auto simp: q_def\<close>)
    then show ?thesis
      using False LL i by (simp add: AcksPacket_def rs_def[symmetric] q_def[symmetric] i_def[symmetric] Let_def)
  qed
qed

section \<open>The size of a truncated frame\<close>

text \<open>The length of the frame with the first \<open>n\<close> ranges only.\<close>

definition range_len :: "AckRange list \<Rightarrow> nat \<Rightarrow> int" where
  "range_len rs i = int (length (enc (fst (encodeAckRange rs i))) + length (enc (snd (encodeAckRange rs i))))"

definition fixed_len :: "AckFrame \<Rightarrow> int" where
  "fixed_len f = 2 + int (length (concat (map enc ([to_u64 (ar_Largest (hd (ak_AckRanges f))),
     encodeAckDelay (ak_DelayTime f), snd (encodeAckRange (ak_AckRanges f) 0)] @ ecn_counts f))))"

definition len_upto :: "AckFrame \<Rightarrow> nat \<Rightarrow> int" where
  "len_upto f n = fixed_len f + sum_list (map (range_len (ak_AckRanges f)) [1..<n])"

lemma len_upto_Suc: "1 \<le> n \<Longrightarrow> len_upto f (Suc n) = len_upto f n + range_len (ak_AckRanges f) n"
  by (simp add: len_upto_def)

lemma encoded_in_range:
  assumes "ranges_ok rs" "i < length rs"
  shows "in_range (fst (encodeAckRange rs i))" "in_range (snd (encodeAckRange rs i))"
proof -
  have r: "0 \<le> ar_Smallest (rs ! j)" "ar_Smallest (rs ! j) \<le> ar_Largest (rs ! j)" "ar_Largest (rs ! j) < 2 ^ 62"
    if "j < length rs" for j
    using ranges_ok_bounds[OF assms(1), of "rs ! j"] that by auto
  show "in_range (snd (encodeAckRange rs i))"
    using r[OF assms(2)] assms by (auto simp: encodeAckRange_def intro!: to_u64_in_range)
  show "in_range (fst (encodeAckRange rs i))"
  proof (cases "i = 0")
    case False
    then have "ar_Largest (rs ! i) + 2 \<le> ar_Smallest (rs ! (i - 1))"
      using assms by (intro descending_nth[of "2 ^ 62 + 1"]) (auto simp: ranges_ok_def)
    moreover have "i - 1 < length rs" using assms(2) by simp
    ultimately show ?thesis
      using False r[OF assms(2)] r[of "i - 1"] by (auto simp: encodeAckRange_def intro!: to_u64_in_range)
  qed (simp add: encodeAckRange_def)
qed

lemma range_len_bounds: "ranges_ok rs \<Longrightarrow> i < length rs \<Longrightarrow> 0 \<le> range_len rs i \<and> range_len rs i \<le> 16"
  using enc_length_le[OF encoded_in_range(1)] enc_length_le[OF encoded_in_range(2)]
  by (fastforce simp: range_len_def)

lemma more_ranges_len:
  "int (length (concat (map enc (more_ranges rs n)))) = sum_list (map (range_len rs) [1..<n])"
  by (induction n) (auto simp: more_ranges_def range_len_def)

lemma wf_fixed:
  assumes "wf_AckFrame f"
  shows "list_all in_range ([to_u64 (ar_Largest (hd (ak_AckRanges f))), encodeAckDelay (ak_DelayTime f),
      snd (encodeAckRange (ak_AckRanges f) 0)] @ ecn_counts f)"
    "fixed_len f \<le> 26 + (if hasECN f then 24 else 0)"
proof -
  have r: "ranges_ok (ak_AckRanges f)" "ak_AckRanges f \<noteq> []" using assms by (auto simp: wf_AckFrame_def ranges_ok_def)
  then have "fits (ar_Largest (hd (ak_AckRanges f)))"
    using ranges_ok_bounds[OF r(1), of "hd (ak_AckRanges f)"] by (auto simp: fits_def)
  moreover have "in_range (encodeAckDelay (ak_DelayTime f))"
    using assms ack_delay_roundtrip by (auto simp: wf_AckFrame_def)
  moreover have "in_range (snd (encodeAckRange (ak_AckRanges f) 0))" using encoded_in_range(2)[OF r(1), of 0] r(2) by simp
  ultimately show i: "list_all in_range ([to_u64 (ar_Largest (hd (ak_AckRanges f))), encodeAckDelay (ak_DelayTime f),
      snd (encodeAckRange (ak_AckRanges f) 0)] @ ecn_counts f)"
    using assms by (simp add: ecn_counts_def wf_AckFrame_def)
  have "list_all in_range vs \<Longrightarrow> int (length (concat (map enc vs))) \<le> 8 * int (length vs)" for vs
    by (induction vs) (auto dest: enc_length_le)
  from this[OF i] show "fixed_len f \<le> 26 + (if hasECN f then 24 else 0)"
    by (cases "hasECN f") (simp_all add: fixed_len_def ecn_counts_def)
qed

lemma wf_take:
  assumes "wf_AckFrame f" "1 \<le> n"
  shows "wf_AckFrame (f\<lparr> ak_AckRanges := take n (ak_AckRanges f) \<rparr>)"
  using assms descending_take by (auto simp: wf_AckFrame_def ranges_ok_def)

lemma Length_take:
  assumes "wf_AckFrame f" "1 \<le> n" "n \<le> min (length (ak_AckRanges f)) MaxNumAckRanges"
  shows "AckFrame_Length (f\<lparr> ak_AckRanges := take n (ak_AckRanges f) \<rparr>) = Done (len_upto f n)"
proof -
  let ?rs = "ak_AckRanges f" and ?g = "f\<lparr> ak_AckRanges := take n (ak_AckRanges f) \<rparr>"
  have ne: "?rs \<noteq> []" using assms(1) by (auto simp: wf_AckFrame_def ranges_ok_def)
  have e: "encodeAckRange (take n ?rs) i = encodeAckRange ?rs i" if "i < n" for i
    using that assms(2) by (auto simp: encodeAckRange_def)
  have m: "more_ranges (take n ?rs) n = more_ranges ?rs n"
    by (auto simp: more_ranges_def e intro!: arg_cong[where f = concat])
  have w: "wf_AckFrame ?g" using assms(1,2) by (rule wf_take)
  have r: "ranges_ok ?rs" using assms(1) by (simp add: wf_AckFrame_def)
  have i: "list_all in_range (more_ranges ?rs n)"
    using encoded_in_range[OF r] assms(3) by (auto simp: more_ranges_def list_all_iff)
  have hd: "hd (take n ?rs) = hd ?rs" "hd ?rs = ?rs ! 0" using ne assms(2) by (auto simp: hd_conv_nth)
  have ecn: "ecn_counts ?g = ecn_counts f" "hasECN ?g = hasECN f" by (simp_all add: ecn_counts_def hasECN_def)
  have l: "LargestAcked ?g = Done (ar_Largest (hd ?rs))"
    using ne assms(2) by (cases ?rs; cases n) (auto simp: LargestAcked_def)
  have f0: "to_u64 (ar_Largest (hd ?rs) - ar_Smallest (take n ?rs ! 0)) = snd (encodeAckRange ?rs 0)"
    using assms(2) hd by (simp add: encodeAckRange_def)
  have mn: "min (length (take n ?rs)) MaxNumAckRanges = n" using assms(3) by simp
  have k: "list_all in_range ([to_u64 (ar_Largest (hd ?rs)), encodeAckDelay (ak_DelayTime f),
      snd (encodeAckRange ?rs 0)] @ more_ranges ?rs n @ ecn_counts f)"
    using wf_fixed(1)[OF assms(1)] i by simp
  show ?thesis
    using k by (simp add: AckFrame_Length_def l Let_def mn[simplified] m ecn f0)
      (simp add: len_upto_def fixed_len_def more_ranges_len[simplified])
qed

lemma encodable_loop_spec:
  assumes "ranges_ok (ak_AckRanges f)" "N \<le> length (ak_AckRanges f)" "1 \<le> i" "i \<le> N" "len_upto f i \<le> m"
  shows "\<exists>n. encodable_loop (ak_AckRanges f) N m i (len_upto f i) = Done n \<and> i \<le> n \<and> n \<le> N \<and>
             len_upto f n \<le> m \<and> (n < N \<longrightarrow> len_upto f (Suc n) > m)"
  using assms(3-5)
proof (induction "N - i" arbitrary: i)
  case 0
  then show ?case by (subst encodable_loop.simps) auto
next
  case (Suc k)
  then have i: "i < N" by auto
  have a: "add_lens 0 [fst (encodeAckRange (ak_AckRanges f) i), snd (encodeAckRange (ak_AckRanges f) i)] =
      Done (range_len (ak_AckRanges f) i)"
    using encoded_in_range[OF assms(1), of i] i assms(2) by (simp add: range_len_def)
  show ?case
  proof (cases "len_upto f (Suc i) \<le> m")
    case True
    have "\<exists>n. encodable_loop (ak_AckRanges f) N m (Suc i) (len_upto f (Suc i)) = Done n \<and> Suc i \<le> n \<and> n \<le> N \<and>
             len_upto f n \<le> m \<and> (n < N \<longrightarrow> len_upto f (Suc n) > m)"
      by (rule Suc(1)) (use Suc i True in auto)
    then show ?thesis
      using i a True len_upto_Suc[OF Suc(3), of f] by (subst encodable_loop.simps) auto
  next
    case False
    then show ?thesis
      using i a len_upto_Suc[OF Suc(3), of f] Suc by (subst encodable_loop.simps) auto
  qed
qed

section \<open>Properties\<close>

text \<open>
  (C27) The binary search over the ranges of an ACK frame says that a packet is acknowledged
  exactly if its number is in one of the ranges; it never indexes out of range.
\<close>

theorem acks_packet_iff:
  assumes "ranges_ok (ak_AckRanges f)"
  shows "AcksPacket f p = Done (\<exists>r \<in> set (ak_AckRanges f). ar_Smallest r \<le> p \<and> p \<le> ar_Largest r)"
  using assms by (rule AcksPacket_spec)

theorem acks_packet_iff_witness:
  "AcksPacket (empty_ack\<lparr> ak_AckRanges := [\<lparr> ar_Smallest = 7, ar_Largest = 9 \<rparr>, \<lparr> ar_Smallest = 2, ar_Largest = 4 \<rparr>] \<rparr>) 3 =
     Done (\<exists>r \<in> {\<lparr> ar_Smallest = 7, ar_Largest = 9 \<rparr>, \<lparr> ar_Smallest = 2, ar_Largest = 4 \<rparr>}.
             ar_Smallest r \<le> 3 \<and> 3 \<le> ar_Largest r)"
  by (subst acks_packet_iff) (simp_all add: ranges_ok_def)

text \<open>
  (C26) Truncating an ACK frame to a size: a frame whose first range fits is cut to a frame that
  fits and keeps the highest ranges, at most 64, and one range more would not have fitted.
\<close>

theorem ack_truncate_fits:
  assumes "wf_AckFrame f"
    and "AckFrame_Length (f\<lparr> ak_AckRanges := take 1 (ak_AckRanges f) \<rparr>) = Done l" "l \<le> maxSize"
  shows "\<exists>n g k. Truncate f maxSize = Done g \<and> g = f\<lparr> ak_AckRanges := take n (ak_AckRanges f) \<rparr> \<and>
           1 \<le> n \<and> n \<le> length (ak_AckRanges f) \<and> n \<le> MaxNumAckRanges \<and>
           AckFrame_Length g = Done k \<and> k \<le> maxSize \<and>
           (n < length (ak_AckRanges f) \<and> n < MaxNumAckRanges \<longrightarrow>
              (\<exists>k. AckFrame_Length (f\<lparr> ak_AckRanges := take (n + 1) (ak_AckRanges f) \<rparr>) = Done k \<and> k > maxSize))"
proof -
  let ?rs = "ak_AckRanges f"
  define N where "N = min (length ?rs) MaxNumAckRanges"
  have r: "ranges_ok ?rs" "?rs \<noteq> []" using assms(1) by (auto simp: wf_AckFrame_def ranges_ok_def)
  have N: "1 \<le> N" "N \<le> length ?rs" using r(2) by (auto simp: N_def MaxNumAckRanges_def Suc_le_eq)
  have l: "len_upto f 1 \<le> maxSize"
    using Length_take[OF assms(1), of 1] assms(2,3) N by (simp add: N_def)
  have "\<exists>n. numEncodableAckRanges f maxSize = Done n \<and> 1 \<le> n \<and> n \<le> N \<and> len_upto f n \<le> maxSize \<and>
      (n < N \<longrightarrow> len_upto f (Suc n) > maxSize)"
  proof (cases "26 + (if hasECN f then 24 else 0) + 16 * (int N - 1) \<le> maxSize")
    case True
    have "sum_list (map (range_len ?rs) [1..<k]) \<le> 16 * (int k - 1)" if "1 \<le> k" "k \<le> N" for k
      using that
    proof (induction k rule: dec_induct)
      case (step k)
      then have "k < length ?rs" using N by simp
      then show ?case using step range_len_bounds[OF r(1), of k] by simp
    qed simp
    from this[OF N(1)] have "len_upto f N \<le> maxSize"
      using True wf_fixed(2)[OF assms(1)] by (simp add: len_upto_def)
    moreover have "numEncodableAckRanges f maxSize = Done N"
      using True by (simp add: numEncodableAckRanges_def Let_def N_def[symmetric] algebra_simps split: if_splits)
    ultimately show ?thesis using N by auto
  next
    case False
    have "LargestAcked f = Done (ar_Largest (hd ?rs))" using r(2) by (auto simp: LargestAcked_def split: list.splits)
    then have "numEncodableAckRanges f maxSize = encodable_loop ?rs N maxSize 1 (len_upto f 1)"
      using False add_lens_enc[OF wf_fixed(1)[OF assms(1)], of 2]
      by (auto simp: numEncodableAckRanges_def Let_def N_def[symmetric] len_upto_def fixed_len_def algebra_simps
          split: if_splits)
    then show ?thesis using encodable_loop_spec[OF r(1) N(2) le_refl N(1) l] by simp
  qed
  then obtain n where n: "numEncodableAckRanges f maxSize = Done n" "1 \<le> n" "n \<le> N" "len_upto f n \<le> maxSize"
      "n < N \<longrightarrow> len_upto f (Suc n) > maxSize"
    by blast
  show ?thesis
    by (intro exI[of _ n] exI[of _ "f\<lparr> ak_AckRanges := take n ?rs \<rparr>"] exI[of _ "len_upto f n"])
       (use n Length_take[OF assms(1), of n] Length_take[OF assms(1), of "n + 1"]
        in \<open>auto simp: Truncate_def N_def\<close>)
qed

theorem ack_truncate_fits_witness:
  "let f = empty_ack\<lparr> ak_AckRanges := [\<lparr> ar_Smallest = 70, ar_Largest = 90 \<rparr>, \<lparr> ar_Smallest = 2, ar_Largest = 4 \<rparr>] \<rparr>
   in \<exists>n g k. Truncate f 7 = Done g \<and> g = f\<lparr> ak_AckRanges := take n (ak_AckRanges f) \<rparr> \<and>
           1 \<le> n \<and> n \<le> length (ak_AckRanges f) \<and> n \<le> MaxNumAckRanges \<and>
           AckFrame_Length g = Done k \<and> k \<le> 7 \<and>
           (n < length (ak_AckRanges f) \<and> n < MaxNumAckRanges \<longrightarrow>
              (\<exists>k. AckFrame_Length (f\<lparr> ak_AckRanges := take (n + 1) (ak_AckRanges f) \<rparr>) = Done k \<and> k > 7))"
  unfolding Let_def by (rule ack_truncate_fits[where l = 6]) code_simp+


end
