(* ===== verification/Quic_Frame_Parser.thy ===== *)
theory Quic_Frame_Parser
  imports Quic_Ack
begin

text \<open>
  The frame parser (\<open>quic-go/internal/wire/frame_parser.go\<close>) and the loop over the frames of a
  packet (\<open>handleFrames\<close> of \<open>quic-go/connection.go\<close>).

  The interface \<open>Frame\<close> is a datatype with one constructor per struct. The loop gets the
  handler of a frame as an argument, a function on the state of the connection that also
  returns the error and, for a PATH_CHALLENGE frame, the frame; with the argument \<open>logging\<close>
  the frames are collected and parsing goes on after an error, as the source does when it
  traces.

  The main facts: the parser stays within the packet and never panics, whatever the bytes are;
  a packet that is composed of frames, with padding before, between and after them, is handled
  as exactly these frames in this order; and tracing does not change what is handled.
\<close>

unbundle bit_operations_syntax

section \<open>Frames\<close>

datatype frame =
    PingFrame
  | FResetStream ResetStreamFrame
  | FStopSending StopSendingFrame
  | FCrypto CryptoFrame
  | FNewToken NewTokenFrame
  | FMaxData MaxDataFrame
  | FMaxStreamData MaxStreamDataFrame
  | FMaxStreams MaxStreamsFrame
  | FDataBlocked DataBlockedFrame
  | FStreamDataBlocked StreamDataBlockedFrame
  | FStreamsBlocked StreamsBlockedFrame
  | FNewConnectionID NewConnectionIDFrame
  | FRetireConnectionID RetireConnectionIDFrame
  | FPathChallenge PathChallengeFrame
  | FPathResponse PathResponseFrame
  | FConnectionClose ConnectionCloseFrame
  | HandshakeDoneFrame
  | FAckFrequency AckFrequencyFrame
  | ImmediateAckFrame
  | FStream StreamFrame
  | FAck AckFrame
  | FDatagram DatagramFrame

definition IsProbingFrame :: "frame \<Rightarrow> bool" where
  "IsProbingFrame f =
     (case f of FPathChallenge _ \<Rightarrow> True | FPathResponse _ \<Rightarrow> True | FNewConnectionID _ \<Rightarrow> True | _ \<Rightarrow> False)"

definition IsProbingFrameType :: "FrameType \<Rightarrow> bool" where
  "IsProbingFrameType t \<longleftrightarrow>
     t = FrameTypePathChallenge \<or> t = FrameTypePathResponse \<or> t = FrameTypeNewConnectionID"

definition IsFrameTypeAckEliciting :: "FrameType \<Rightarrow> bool" where
  "IsFrameTypeAckEliciting t =
     (if t = FrameTypeAck \<or> t = FrameTypeAckECN then False
      else if t = FrameTypeConnectionClose \<or> t = FrameTypeApplicationClose then False
      else True)"

definition IsFrameAckEliciting :: "frame \<Rightarrow> bool" where
  "IsFrameAckEliciting f = (case f of FAck _ \<Rightarrow> False | FConnectionClose _ \<Rightarrow> False | _ \<Rightarrow> True)"

definition HasAckElicitingFrames :: "frame list \<Rightarrow> bool" where
  "HasAckElicitingFrames fs = list_ex IsFrameAckEliciting fs"

fun frame_Append :: "bytes \<Rightarrow> frame \<Rightarrow> (frame_error + bytes) outcome" where
  "frame_Append b PingFrame = Done (Inr (b @ [ucast FrameTypePing]))"
| "frame_Append b (FResetStream f) = ok (ResetStreamFrame_Append b f)"
| "frame_Append b (FStopSending f) = ok (StopSendingFrame_Append b f)"
| "frame_Append b (FCrypto f) = ok (CryptoFrame_Append b f)"
| "frame_Append b (FNewToken f) = ok (NewTokenFrame_Append b f)"
| "frame_Append b (FMaxData f) = ok (MaxDataFrame_Append b f)"
| "frame_Append b (FMaxStreamData f) = ok (MaxStreamDataFrame_Append b f)"
| "frame_Append b (FMaxStreams f) = ok (MaxStreamsFrame_Append b f)"
| "frame_Append b (FDataBlocked f) = ok (DataBlockedFrame_Append b f)"
| "frame_Append b (FStreamDataBlocked f) = ok (StreamDataBlockedFrame_Append b f)"
| "frame_Append b (FStreamsBlocked f) = ok (StreamsBlockedFrame_Append b f)"
| "frame_Append b (FNewConnectionID f) = NewConnectionIDFrame_Append b f"
| "frame_Append b (FRetireConnectionID f) = ok (RetireConnectionIDFrame_Append b f)"
| "frame_Append b (FPathChallenge f) = ok (PathChallengeFrame_Append b f)"
| "frame_Append b (FPathResponse f) = ok (PathResponseFrame_Append b f)"
| "frame_Append b (FConnectionClose f) = ok (ConnectionCloseFrame_Append b f)"
| "frame_Append b HandshakeDoneFrame = Done (Inr (b @ [ucast FrameTypeHandshakeDone]))"
| "frame_Append b (FAckFrequency f) = ok (AckFrequencyFrame_Append b f)"
| "frame_Append b ImmediateAckFrame = ok (append_all b [FrameTypeImmediateAck])"
| "frame_Append b (FStream f) = StreamFrame_Append b f"
| "frame_Append b (FAck f) = ok (AckFrame_Append b f)"
| "frame_Append b (FDatagram f) = ok (DatagramFrame_Append b f)"

fun frame_Length :: "frame \<Rightarrow> int outcome" where
  "frame_Length PingFrame = Done 1"
| "frame_Length (FResetStream f) = ResetStreamFrame_Length f"
| "frame_Length (FStopSending f) = StopSendingFrame_Length f"
| "frame_Length (FCrypto f) = CryptoFrame_Length f"
| "frame_Length (FNewToken f) = NewTokenFrame_Length f"
| "frame_Length (FMaxData f) = MaxDataFrame_Length f"
| "frame_Length (FMaxStreamData f) = MaxStreamDataFrame_Length f"
| "frame_Length (FMaxStreams f) = MaxStreamsFrame_Length f"
| "frame_Length (FDataBlocked f) = DataBlockedFrame_Length f"
| "frame_Length (FStreamDataBlocked f) = StreamDataBlockedFrame_Length f"
| "frame_Length (FStreamsBlocked f) = StreamsBlockedFrame_Length f"
| "frame_Length (FNewConnectionID f) = NewConnectionIDFrame_Length f"
| "frame_Length (FRetireConnectionID f) = RetireConnectionIDFrame_Length f"
| "frame_Length (FPathChallenge f) = PathChallengeFrame_Length f"
| "frame_Length (FPathResponse f) = PathResponseFrame_Length f"
| "frame_Length (FConnectionClose f) = ConnectionCloseFrame_Length f"
| "frame_Length HandshakeDoneFrame = Done 1"
| "frame_Length (FAckFrequency f) = AckFrequencyFrame_Length f"
| "frame_Length ImmediateAckFrame = add_lens 0 [FrameTypeImmediateAck]"
| "frame_Length (FStream f) = StreamFrame_Length f"
| "frame_Length (FAck f) = AckFrame_Length f"
| "frame_Length (FDatagram f) = DatagramFrame_Length f"

section \<open>The parser\<close>

record FrameParser =
  fp_ackDelayExponent :: nat
  fp_supportsDatagrams :: bool
  fp_supportsResetStreamAt :: bool
  fp_supportsAckFrequency :: bool
  fp_ackFrame :: AckFrame

definition NewFrameParser :: "bool \<Rightarrow> bool \<Rightarrow> bool \<Rightarrow> FrameParser" where
  "NewFrameParser supportsDatagrams supportsResetStreamAt supportsAckFrequency =
     \<lparr> fp_ackDelayExponent = 0, fp_supportsDatagrams = supportsDatagrams,
       fp_supportsResetStreamAt = supportsResetStreamAt, fp_supportsAckFrequency = supportsAckFrequency,
       fp_ackFrame = empty_ack \<rparr>"

definition SetAckDelayExponent :: "FrameParser \<Rightarrow> nat \<Rightarrow> FrameParser" where
  "SetAckDelayExponent p e = p\<lparr> fp_ackDelayExponent := e \<rparr>"

text \<open>A transport error with the code \<open>FrameEncodingError\<close>, the frame type and the cause.\<close>

datatype parse_error = NoMoreFrames | FrameEncodingError u64 frame_error

definition valid_type :: "FrameParser \<Rightarrow> FrameType \<Rightarrow> bool" where
  "valid_type p ft \<longleftrightarrow> isValidRFC9000 ft \<or>
     (fp_supportsDatagrams p \<and> IsDatagramFrameType ft) \<or>
     (fp_supportsResetStreamAt p \<and> ft = FrameTypeResetStreamAt) \<or>
     (fp_supportsAckFrequency p \<and> (ft = FrameTypeAckFrequency \<or> ft = FrameTypeImmediateAck))"

function parse_type_loop :: "FrameParser \<Rightarrow> EncryptionLevel \<Rightarrow> int \<Rightarrow> bytes \<Rightarrow> (parse_error + FrameType) \<times> int" where
  "parse_type_loop p encLevel parsed b =
     (if b = [] then (Inl NoMoreFrames, parsed)
      else case Parse b of
        Inl e \<Rightarrow> (Inl (FrameEncodingError 0 (IO e)), parsed)
      | Inr (typ, l) \<Rightarrow>
          let parsed = parsed + int l; b = drop l b in
          if typ = 0 then parse_type_loop p encLevel parsed b
          else if \<not> valid_type p typ then (Inl (FrameEncodingError typ UnknownFrameType), parsed)
          else if \<not> isAllowedAtEncLevel typ encLevel then (Inl (FrameEncodingError typ FrameNotAllowed), parsed)
          else (Inr typ, parsed))"
  by pat_completeness auto
termination
  by (relation "measure (\<lambda>(p, e, n, b). length b)") (auto dest!: Parse_pos)

declare parse_type_loop.simps [simp del]

definition ParseType :: "FrameParser \<Rightarrow> bytes \<Rightarrow> EncryptionLevel \<Rightarrow> (parse_error + FrameType) \<times> int" where
  "ParseType p b encLevel = parse_type_loop p encLevel 0 b"

definition wrap_error :: "FrameType \<Rightarrow> (frame_error + 'f \<times> int) \<Rightarrow> ('f \<Rightarrow> frame) \<Rightarrow> parse_error + frame \<times> int" where
  "wrap_error t r c = (case r of Inl e \<Rightarrow> Inl (FrameEncodingError t e) | Inr (f, n) \<Rightarrow> Inr (c f, n))"

definition FrameParser_ParseStreamFrame :: "FrameType \<Rightarrow> bytes \<Rightarrow> parse_error + frame \<times> int" where
  "FrameParser_ParseStreamFrame frameType data = wrap_error frameType (ParseStreamFrame data frameType) FStream"

definition DefaultAckDelayExponent :: nat where "DefaultAckDelayExponent = 3"

definition FrameParser_ParseAckFrame ::
    "FrameParser \<Rightarrow> FrameType \<Rightarrow> bytes \<Rightarrow> EncryptionLevel \<Rightarrow> parse_error + frame \<times> int" where
  "FrameParser_ParseAckFrame p frameType data encLevel =
     (let ackDelayExponent = (if encLevel \<noteq> Encryption1RTT then DefaultAckDelayExponent else fp_ackDelayExponent p)
      in wrap_error frameType
           (parseAckFrame (AckFrame_Reset (fp_ackFrame p)) data frameType ackDelayExponent) FAck)"

definition FrameParser_ParseDatagramFrame :: "FrameType \<Rightarrow> bytes \<Rightarrow> parse_error + frame \<times> int" where
  "FrameParser_ParseDatagramFrame frameType data = wrap_error frameType (parseDatagramFrame data frameType) FDatagram"

definition ParseLessCommonFrame :: "FrameType \<Rightarrow> bytes \<Rightarrow> (parse_error + frame \<times> int) outcome" where
  "ParseLessCommonFrame t data =
     (if t = FrameTypePing then Done (Inr (PingFrame, 0))
      else if t = FrameTypeResetStream then Done (wrap_error t (parseResetStreamFrame data False) FResetStream)
      else if t = FrameTypeStopSending then Done (wrap_error t (parseStopSendingFrame data) FStopSending)
      else if t = FrameTypeCrypto then Done (wrap_error t (parseCryptoFrame data) FCrypto)
      else if t = FrameTypeNewToken then Done (wrap_error t (parseNewTokenFrame data) FNewToken)
      else if t = FrameTypeMaxData then Done (wrap_error t (parseMaxDataFrame data) FMaxData)
      else if t = FrameTypeMaxStreamData then Done (wrap_error t (parseMaxStreamDataFrame data) FMaxStreamData)
      else if t = FrameTypeBidiMaxStreams \<or> t = FrameTypeUniMaxStreams then
        Done (wrap_error t (parseMaxStreamsFrame data t) FMaxStreams)
      else if t = FrameTypeDataBlocked then Done (wrap_error t (parseDataBlockedFrame data) FDataBlocked)
      else if t = FrameTypeStreamDataBlocked then
        Done (wrap_error t (parseStreamDataBlockedFrame data) FStreamDataBlocked)
      else if t = FrameTypeBidiStreamBlocked \<or> t = FrameTypeUniStreamBlocked then
        Done (wrap_error t (parseStreamsBlockedFrame data t) FStreamsBlocked)
      else if t = FrameTypeNewConnectionID then
        (case parseNewConnectionIDFrame data of
           Inl e \<Rightarrow> Done (Inl (FrameEncodingError t e))
         | Inr (Done f, n) \<Rightarrow> Done (Inr (FNewConnectionID f, n))
         | Inr (Panic, n) \<Rightarrow> Panic)
      else if t = FrameTypeRetireConnectionID then
        Done (wrap_error t (parseRetireConnectionIDFrame data) FRetireConnectionID)
      else if t = FrameTypePathChallenge then Done (wrap_error t (parsePathChallengeFrame data) FPathChallenge)
      else if t = FrameTypePathResponse then Done (wrap_error t (parsePathResponseFrame data) FPathResponse)
      else if t = FrameTypeConnectionClose \<or> t = FrameTypeApplicationClose then
        Done (wrap_error t (parseConnectionCloseFrame data t) FConnectionClose)
      else if t = FrameTypeHandshakeDone then Done (Inr (HandshakeDoneFrame, 0))
      else if t = FrameTypeResetStreamAt then Done (wrap_error t (parseResetStreamFrame data True) FResetStream)
      else if t = FrameTypeAckFrequency then Done (wrap_error t (parseAckFrequencyFrame data) FAckFrequency)
      else if t = FrameTypeImmediateAck then Done (Inr (ImmediateAckFrame, 0))
      else Done (Inl (FrameEncodingError t UnknownFrameType)))"

text \<open>The choice of the parser, as the loop over the frames makes it.\<close>

definition parse_frame ::
    "FrameParser \<Rightarrow> FrameType \<Rightarrow> bytes \<Rightarrow> EncryptionLevel \<Rightarrow> (parse_error + frame \<times> int) outcome" where
  "parse_frame p t data encLevel =
     (if IsStreamFrameType t then Done (FrameParser_ParseStreamFrame t data)
      else if IsAckFrameType t then Done (FrameParser_ParseAckFrame p t data encLevel)
      else if IsDatagramFrameType t then Done (FrameParser_ParseDatagramFrame t data)
      else ParseLessCommonFrame t data)"

section \<open>The parser stays within the packet\<close>

lemma parse_type_bounds:
  assumes "parse_type_loop p e n b = (r, m)"
  shows "n \<le> m \<and> m \<le> n + int (length b) \<and>
         (\<forall>t. r = Inr t \<longrightarrow> n < m \<and> t \<noteq> 0 \<and> valid_type p t \<and> isAllowedAtEncLevel t e)"
  using assms
proof (induction p e n b rule: parse_type_loop.induct)
  case (1 p e n b)
  show ?case
  proof (cases "b = []")
    case True
    then show ?thesis using 1(2) by (subst (asm) parse_type_loop.simps) auto
  next
    case False
    show ?thesis
    proof (cases "Parse b")
      case (Inl x)
      then show ?thesis using 1(2) False by (subst (asm) parse_type_loop.simps) auto
    next
      case (Inr x)
      then obtain t l where x: "Parse b = Inr (t, l)" by (cases x) auto
      note l = Parse_pos[OF x]
      show ?thesis
      proof (cases "t = 0")
        case True
        then have "parse_type_loop p e (n + int l) (drop l b) = (r, m)"
          using 1(2) False x parse_type_loop.simps[of p e n b] by simp
        from 1(1)[OF False x refl refl refl True this] show ?thesis using l by fastforce
      next
        case t0: False
        then show ?thesis
          using 1(2) False x l parse_type_loop.simps[of p e n b] by (auto simp: Let_def split: if_splits)
      qed
    qed
  qed
qed

lemma ParseType_bounds:
  assumes "ParseType p b e = (r, m)"
  shows "0 \<le> m" "m \<le> int (length b)"
    "r = Inr t \<Longrightarrow> 0 < m \<and> t \<noteq> 0 \<and> valid_type p t \<and> isAllowedAtEncLevel t e"
  using parse_type_bounds[of p e 0 b r m] assms by (auto simp: ParseType_def)

lemma AckFrame_Reset_empty: "AckFrame_Reset f = empty_ack"
  by (simp add: AckFrame_Reset_def empty_ack_def)

lemma wrap_error_Inr: "wrap_error t r c = Inr (f, n) \<longleftrightarrow> (\<exists>g. r = Inr (g, n) \<and> f = c g)"
  by (auto simp: wrap_error_def split: sum.splits)

lemma reset_within: "parseResetStreamFrame b at = Inr (f, n) \<Longrightarrow> 0 \<le> n \<and> n \<le> int (length b)"
  using reset_stream.within[of b FrameTypeResetStreamAt f n] reset_stream.within[of b 0 f n]
  by (cases at) (auto simp: frame_type_defs)

lemma new_connection_id_within:
  "parseNewConnectionIDFrame b = Inr (Done f, n) \<Longrightarrow> 0 \<le> n \<and> n \<le> int (length b)"
  using new_connection_id.within[of b f n] by simp

lemmas codecs_within =
  reset_within new_connection_id_within stop_sending.within crypto.within new_token.within
  max_data.within max_stream_data.within max_streams.within data_blocked.within
  stream_data_blocked.within streams_blocked.within retire_connection_id.within
  path_challenge.within path_response.within connection_close.within ack_frequency.within
  stream_within datagram.within

lemma less_common_safe:
  "ParseLessCommonFrame t b \<noteq> Panic"
  "ParseLessCommonFrame t b = Done (Inr (f, n)) \<Longrightarrow> 0 \<le> n \<and> n \<le> int (length b)"
proof -
  show "ParseLessCommonFrame t b \<noteq> Panic"
    using new_connection_id_no_panic[of b]
    by (auto simp: ParseLessCommonFrame_def split: sum.splits outcome.splits)
  show "ParseLessCommonFrame t b = Done (Inr (f, n)) \<Longrightarrow> 0 \<le> n \<and> n \<le> int (length b)"
    unfolding ParseLessCommonFrame_def
    by (auto simp: wrap_error_Inr split: if_split_asm sum.splits outcome.splits dest: codecs_within)
qed

lemma parse_frame_safe:
  "parse_frame p t b e \<noteq> Panic"
  "parse_frame p t b e = Done (Inr (f, n)) \<Longrightarrow> 0 \<le> n \<and> n \<le> int (length b)"
  using less_common_safe[of t b]
  by (auto simp: parse_frame_def FrameParser_ParseStreamFrame_def FrameParser_ParseAckFrame_def
      FrameParser_ParseDatagramFrame_def Let_def wrap_error_Inr AckFrame_Reset_empty
      split: if_split_asm dest: codecs_within ack_parsed)

section \<open>The loop over the frames\<close>

datatype 'e frames_error = ParseErr parse_error | HandleErr 'e

record ('s, 'e) frames_state =
  hf_conn :: 's
  hf_isAckEliciting :: bool
  hf_isNonProbing :: bool
  hf_pathChallenge :: "PathChallengeFrame option"
  hf_handleErr :: "'e option"
  hf_skipHandling :: bool
  hf_frames :: "frame list"

type_synonym ('s, 'e) frame_handler = "frame \<Rightarrow> 's \<Rightarrow> 's \<times> 'e option \<times> PathChallengeFrame option"

definition note_type :: "FrameType \<Rightarrow> ('s, 'e) frames_state \<Rightarrow> ('s, 'e) frames_state" where
  "note_type t st = st\<lparr> hf_isAckEliciting := (hf_isAckEliciting st \<or> IsFrameTypeAckEliciting t),
                        hf_isNonProbing := (hf_isNonProbing st \<or> \<not> IsProbingFrameType t) \<rparr>"

definition note_frame :: "bool \<Rightarrow> frame \<Rightarrow> ('s, 'e) frames_state \<Rightarrow> ('s, 'e) frames_state" where
  "note_frame logging f st = (if logging then st\<lparr> hf_frames := hf_frames st @ [f] \<rparr> else st)"

definition run_handler :: "('s, 'e) frame_handler \<Rightarrow> frame \<Rightarrow> ('s, 'e) frames_state \<Rightarrow> ('s, 'e) frames_state" where
  "run_handler handle f st =
     (case handle f (hf_conn st) of (c, err, pc) \<Rightarrow>
        st\<lparr> hf_conn := c, hf_handleErr := err,
            hf_pathChallenge := (if pc \<noteq> None then pc else hf_pathChallenge st) \<rparr>)"

function frames_loop ::
    "FrameParser \<Rightarrow> EncryptionLevel \<Rightarrow> ('s, 'e) frame_handler \<Rightarrow> bool \<Rightarrow> bytes \<Rightarrow> ('s, 'e) frames_state
     \<Rightarrow> (('s, 'e) frames_state \<times> 'e frames_error option) outcome" where
  "frames_loop p encLevel handle logging data st =
     (if data = [] then Done (st, None)
      else case ParseType p data encLevel of
        (Inl e, _) \<Rightarrow> Done (st, if e = NoMoreFrames then None else Some (ParseErr e))
      | (Inr t, l) \<Rightarrow>
          let data = drop (nat l) data; st = note_type t st in
          case parse_frame p t data encLevel of
            Panic \<Rightarrow> Panic
          | Done (Inl e) \<Rightarrow> Done (st, Some (ParseErr e))
          | Done (Inr (f, l)) \<Rightarrow>
              let data = drop (nat l) data; st = note_frame logging f st in
              if hf_skipHandling st then frames_loop p encLevel handle logging data st
              else
                let st = run_handler handle f st in
                case hf_handleErr st of
                  None \<Rightarrow> frames_loop p encLevel handle logging data st
                | Some e \<Rightarrow>
                    let st = st\<lparr> hf_skipHandling := True \<rparr> in
                    if \<not> logging then Done (st, Some (HandleErr e))
                    else frames_loop p encLevel handle logging data st)"
  by pat_completeness auto
termination
  by (relation "measure (\<lambda>(p, e, h, l, d, s). length d)") (auto dest!: sym[of "(_, _)" "ParseType _ _ _"] ParseType_bounds(3)[OF _ refl])

declare frames_loop.simps [simp del]

definition init_frames :: "'s \<Rightarrow> ('s, 'e) frames_state" where
  "init_frames c = \<lparr> hf_conn = c, hf_isAckEliciting = False, hf_isNonProbing = False,
     hf_pathChallenge = None, hf_handleErr = None, hf_skipHandling = False, hf_frames = [] \<rparr>"

text \<open>
  After the loop, a handshake that was completed by one of the frames is dealt with. The test
  for a complete handshake and this step are arguments, as the handler is.
\<close>

definition handleFrames ::
    "FrameParser \<Rightarrow> EncryptionLevel \<Rightarrow> ('s, 'e) frame_handler \<Rightarrow> ('s \<Rightarrow> bool) \<Rightarrow> ('s \<Rightarrow> 's \<times> 'e option)
     \<Rightarrow> bool \<Rightarrow> bytes \<Rightarrow> 's \<Rightarrow> (('s, 'e) frames_state \<times> 'e frames_error option) outcome" where
  "handleFrames p encLevel handle handshakeComplete handleHandshakeComplete logging data conn =
     bind_outcome (frames_loop p encLevel handle logging data (init_frames conn)) (\<lambda>(st, err).
       case err of Some e \<Rightarrow> Done (st, Some e)
       | None \<Rightarrow>
           (case (if logging then hf_handleErr st else None) of
              Some e \<Rightarrow> Done (st, Some (HandleErr e))
            | None \<Rightarrow>
                if \<not> handshakeComplete conn \<and> handshakeComplete (hf_conn st) then
                  (case handleHandshakeComplete (hf_conn st) of (c, e) \<Rightarrow>
                     Done (st\<lparr> hf_conn := c \<rparr>, map_option HandleErr e))
                else Done (st, None)))"

section \<open>The loop as a fold over the parsed frames\<close>

text \<open>
  The frames of a payload with their types, and the error that ends it, with the frame type if
  it is an error in a frame. Handling them is a fold over the list.
\<close>

function parse_all ::
    "FrameParser \<Rightarrow> EncryptionLevel \<Rightarrow> bytes \<Rightarrow> (FrameType \<times> frame) list \<times> (FrameType option \<times> parse_error) option" where
  "parse_all p e b =
     (if b = [] then ([], None)
      else case ParseType p b e of
        (Inl x, _) \<Rightarrow> ([], if x = NoMoreFrames then None else Some (None, x))
      | (Inr t, l) \<Rightarrow>
          (case parse_frame p t (drop (nat l) b) e of
             Done (Inr (f, n)) \<Rightarrow>
               (case parse_all p e (drop (nat n) (drop (nat l) b)) of (fs, x) \<Rightarrow> ((t, f) # fs, x))
           | Done (Inl x) \<Rightarrow> ([], Some (Some t, x))
           | Panic \<Rightarrow> ([], None)))"
  by pat_completeness auto
termination
  by (relation "measure (\<lambda>(p, e, d). length d)") (auto dest!: sym[of "(_, _)" "ParseType _ _ _"] ParseType_bounds(3)[OF _ refl])

declare parse_all.simps [simp del]

fun run_frames ::
    "('s, 'e) frame_handler \<Rightarrow> bool \<Rightarrow> (FrameType \<times> frame) list \<Rightarrow> ('s, 'e) frames_state
     \<Rightarrow> ('s, 'e) frames_state \<times> 'e frames_error option" where
  "run_frames handle lg [] st = (st, None)"
| "run_frames handle lg ((t, f) # fs) st =
     (let st = note_frame lg f (note_type t st) in
      if hf_skipHandling st then run_frames handle lg fs st
      else
        let st = run_handler handle f st in
        case hf_handleErr st of
          None \<Rightarrow> run_frames handle lg fs st
        | Some e \<Rightarrow>
            let st = st\<lparr> hf_skipHandling := True \<rparr> in
            if \<not> lg then (st, Some (HandleErr e)) else run_frames handle lg fs st)"

fun run_end ::
    "(FrameType option \<times> parse_error) option \<Rightarrow> ('s, 'e) frames_state \<times> 'e frames_error option
     \<Rightarrow> ('s, 'e) frames_state \<times> 'e frames_error option" where
  "run_end x (st, Some e) = (st, Some e)"
| "run_end None (st, None) = (st, None)"
| "run_end (Some (None, x)) (st, None) = (st, Some (ParseErr x))"
| "run_end (Some (Some t, x)) (st, None) = (note_type t st, Some (ParseErr x))"

lemma frames_loop_fold:
  "frames_loop p e h lg b st = Done (run_end (snd (parse_all p e b)) (run_frames h lg (fst (parse_all p e b)) st))"
proof (induction p e h lg b st rule: frames_loop.induct)
  case (1 p e h lg b st)
  note unf = frames_loop.simps[of p e h lg b st] parse_all.simps[of p e b]
  show ?case
  proof (cases "b = []")
    case True
    show ?thesis unfolding unf using True by simp
  next
    case False
    obtain r l where t: "ParseType p b e = (r, l)" by fastforce
    show ?thesis
    proof (cases r)
      case (Inl x)
      then show ?thesis using False t by (simp add: unf)
    next
      case (Inr ty)
      show ?thesis
      proof (cases "parse_frame p ty (drop (nat l) b) e")
        case Panic
        then show ?thesis using parse_frame_safe(1) by blast
      next
        case (Done q)
        show ?thesis
        proof (cases q)
          case (Inl x)
          then show ?thesis using False t Inr Done by (simp add: unf Let_def)
        next
          case q: (Inr fn)
          obtain f n where fn: "fn = (f, n)" by fastforce
          note IH = 1[OF False t[symmetric] Inr refl refl Done q fn[symmetric] refl refl]
          show ?thesis
            using IH False t Inr Done q fn
            by (simp add: unf Let_def split: prod.splits option.splits)
        qed
      qed
    qed
  qed
qed

lemma handleFrames_fold:
  "handleFrames p e h hc hhc lg b c =
     (case run_end (snd (parse_all p e b)) (run_frames h lg (fst (parse_all p e b)) (init_frames c)) of
        (st, Some x) \<Rightarrow> Done (st, Some x)
      | (st, None) \<Rightarrow>
          (case (if lg then hf_handleErr st else None) of
             Some x \<Rightarrow> Done (st, Some (HandleErr x))
           | None \<Rightarrow>
               if \<not> hc c \<and> hc (hf_conn st) then
                 (case hhc (hf_conn st) of (c, x) \<Rightarrow> Done (st\<lparr> hf_conn := c \<rparr>, map_option HandleErr x))
               else Done (st, None)))"
  by (simp add: handleFrames_def frames_loop_fold split: prod.splits option.splits)

section \<open>Tracing\<close>

lemma skipping_keeps:
  "hf_skipHandling st \<Longrightarrow> \<exists>st'. run_frames h True fs st = (st', None) \<and> hf_conn st' = hf_conn st \<and>
     hf_handleErr st' = hf_handleErr st \<and> hf_skipHandling st'"
proof (induction fs arbitrary: st)
  case (Cons tf fs)
  obtain t f where tf: "tf = (t, f)" by fastforce
  have "hf_skipHandling (note_frame True f (note_type t st))"
    using Cons.prems by (simp add: note_frame_def note_type_def)
  from Cons.IH[OF this] show ?case
    using Cons.prems by (auto simp: tf note_frame_def note_type_def)
qed simp

text \<open>Two states that differ in the trace only.\<close>

definition same_but_trace :: "('s, 'e) frames_state \<Rightarrow> ('s, 'e) frames_state \<Rightarrow> bool" where
  "same_but_trace s t \<longleftrightarrow> s\<lparr> hf_frames := [] \<rparr> = t\<lparr> hf_frames := [] \<rparr>"

lemma same_but_trace_steps:
  "same_but_trace s t \<Longrightarrow> same_but_trace (note_type ty s) (note_type ty t)"
  "same_but_trace s t \<Longrightarrow> same_but_trace (note_frame False f s) (note_frame True f t)"
  "same_but_trace s t \<Longrightarrow> same_but_trace (run_handler h f s) (run_handler h f t)"
  "same_but_trace s t \<Longrightarrow> hf_skipHandling s = hf_skipHandling t \<and> hf_handleErr s = hf_handleErr t \<and> hf_conn s = hf_conn t"
  by (cases s; cases t; simp add: same_but_trace_def note_type_def note_frame_def run_handler_def split: prod.splits)+

lemma run_frames_tracing:
  assumes "same_but_trace s t" "\<not> hf_skipHandling s" "hf_handleErr s = None"
  shows "\<exists>s' t' x. run_frames h False fs s = (s', x) \<and> run_frames h True fs t = (t', None) \<and>
           hf_conn s' = hf_conn t' \<and>
           (x = None \<and> same_but_trace s' t' \<and> hf_handleErr t' = None \<or>
            (\<exists>e. x = Some (HandleErr e) \<and> hf_handleErr t' = Some e))"
  using assms
proof (induction fs arbitrary: s t)
  case Nil
  then show ?case using same_but_trace_steps(4)[OF Nil(1)] by auto
next
  case (Cons tf fs)
  obtain ty f where tf: "tf = (ty, f)" by fastforce
  let ?s = "run_handler h f (note_frame False f (note_type ty s))"
  let ?t = "run_handler h f (note_frame True f (note_type ty t))"
  have st: "same_but_trace ?s ?t" using Cons.prems(1) by (intro same_but_trace_steps)
  note eq = same_but_trace_steps(4)[OF st]
  have sk: "\<not> hf_skipHandling (note_frame False f (note_type ty s))" "\<not> hf_skipHandling (note_frame True f (note_type ty t))"
    "\<not> hf_skipHandling ?s"
    using Cons.prems(2) same_but_trace_steps(4)[OF Cons.prems(1)]
    by (auto simp: note_frame_def note_type_def run_handler_def split: prod.splits)
  show ?case
  proof (cases "hf_handleErr ?s")
    case None
    then show ?thesis using Cons.IH[OF st sk(3) None] sk eq by (simp add: tf Let_def)
  next
    case (Some e)
    obtain t' where t': "run_frames h True fs (?t\<lparr> hf_skipHandling := True \<rparr>) = (t', None)"
        "hf_conn t' = hf_conn ?t" "hf_handleErr t' = hf_handleErr ?t"
      using skipping_keeps[of "?t\<lparr> hf_skipHandling := True \<rparr>" h fs] by auto
    show ?thesis using Some sk eq t' by (auto simp: tf Let_def)
  qed
qed

text \<open>
  (C19) Tracing does not change what a packet does. With and without a trace the connection ends
  in the same state, and the packet is accepted in both cases or in none. The errors agree too,
  unless the handling of a frame has failed and, with a trace, a later frame that is only parsed
  to be traced is malformed: then the error of the parser is reported instead.
\<close>

theorem tracing_is_transparent:
  "\<exists>s t x y. handleFrames p encLevel handle hc hhc False payload conn = Done (s, x) \<and>
             handleFrames p encLevel handle hc hhc True payload conn = Done (t, y) \<and>
             hf_conn s = hf_conn t \<and> (x = None \<longleftrightarrow> y = None) \<and>
             (x = y \<or> (\<exists>e g. x = Some (HandleErr e) \<and> y = Some (ParseErr g)))"
proof -
  obtain fs z where fs: "parse_all p encLevel payload = (fs, z)" by fastforce
  have "same_but_trace (init_frames conn) (init_frames conn :: ('a, 'b) frames_state)"
    by (simp add: same_but_trace_def)
  then obtain s' t' x where r: "run_frames handle False fs (init_frames conn) = (s', x)"
      "run_frames handle True fs (init_frames conn) = (t', None)" "hf_conn s' = hf_conn t'"
      "x = None \<and> same_but_trace s' t' \<and> hf_handleErr t' = None \<or>
       (\<exists>e. x = Some (HandleErr e) \<and> hf_handleErr t' = Some e)"
    using run_frames_tracing[of "init_frames conn" "init_frames conn" handle fs]
    by (auto simp: init_frames_def)
  have nt: "hf_conn (note_type ty w) = hf_conn w" "hf_handleErr (note_type ty w) = hf_handleErr w" for ty w
    by (simp_all add: note_type_def)
  show ?thesis
    using r by (cases z rule: option.exhaust; cases "fst (the z)")
      (auto simp: handleFrames_fold fs nt split: prod.splits)
qed

section \<open>Writing and reading packets\<close>

fun frame_type :: "frame \<Rightarrow> FrameType" where
  "frame_type PingFrame = FrameTypePing"
| "frame_type (FResetStream f) = reset_stream_type f"
| "frame_type (FStopSending f) = FrameTypeStopSending"
| "frame_type (FCrypto f) = FrameTypeCrypto"
| "frame_type (FNewToken f) = FrameTypeNewToken"
| "frame_type (FMaxData f) = FrameTypeMaxData"
| "frame_type (FMaxStreamData f) = FrameTypeMaxStreamData"
| "frame_type (FMaxStreams f) = max_streams_type f"
| "frame_type (FDataBlocked f) = FrameTypeDataBlocked"
| "frame_type (FStreamDataBlocked f) = FrameTypeStreamDataBlocked"
| "frame_type (FStreamsBlocked f) = streams_blocked_type f"
| "frame_type (FNewConnectionID f) = FrameTypeNewConnectionID"
| "frame_type (FRetireConnectionID f) = FrameTypeRetireConnectionID"
| "frame_type (FPathChallenge f) = FrameTypePathChallenge"
| "frame_type (FPathResponse f) = FrameTypePathResponse"
| "frame_type (FConnectionClose f) = connection_close_type f"
| "frame_type HandshakeDoneFrame = FrameTypeHandshakeDone"
| "frame_type (FAckFrequency f) = FrameTypeAckFrequency"
| "frame_type ImmediateAckFrame = FrameTypeImmediateAck"
| "frame_type (FStream f) = stream_type f"
| "frame_type (FAck f) = ack_type f"
| "frame_type (FDatagram f) = datagram_type f"

fun wf_frame :: "frame \<Rightarrow> bool" where
  "wf_frame (FResetStream f) = wf_ResetStreamFrame f"
| "wf_frame (FStopSending f) = wf_StopSendingFrame f"
| "wf_frame (FCrypto f) = wf_CryptoFrame f"
| "wf_frame (FNewToken f) = wf_NewTokenFrame f"
| "wf_frame (FMaxData f) = wf_MaxDataFrame f"
| "wf_frame (FMaxStreamData f) = wf_MaxStreamDataFrame f"
| "wf_frame (FMaxStreams f) = wf_MaxStreamsFrame f"
| "wf_frame (FDataBlocked f) = wf_DataBlockedFrame f"
| "wf_frame (FStreamDataBlocked f) = wf_StreamDataBlockedFrame f"
| "wf_frame (FStreamsBlocked f) = wf_StreamsBlockedFrame f"
| "wf_frame (FNewConnectionID f) = wf_NewConnectionIDFrame f"
| "wf_frame (FRetireConnectionID f) = wf_RetireConnectionIDFrame f"
| "wf_frame (FPathChallenge f) = wf_PathChallengeFrame f"
| "wf_frame (FPathResponse f) = wf_PathResponseFrame f"
| "wf_frame (FConnectionClose f) = wf_ConnectionCloseFrame f"
| "wf_frame (FAckFrequency f) = wf_AckFrequencyFrame f"
| "wf_frame (FStream f) = wf_StreamFrame f"
| "wf_frame (FAck f) = wf_AckFrame f"
| "wf_frame (FDatagram f) = (int (length (dg_Data f)) < 2 ^ 62)"
| "wf_frame f = True"

text \<open>Frames that do not take the rest of the packet.\<close>

fun delimited :: "frame \<Rightarrow> bool" where
  "delimited (FStream f) = sf_DataLenPresent f"
| "delimited (FDatagram f) = dg_DataLenPresent f"
| "delimited f = True"

text \<open>What arrives of a frame.\<close>

fun received :: "frame \<Rightarrow> frame" where
  "received (FStream f) = FStream (received_stream f)"
| "received (FAck f) = FAck (received_ack f)"
| "received f = f"

text \<open>The delay of ACK frames is read with the exponent it is written with.\<close>

definition default_exponent :: "FrameParser \<Rightarrow> EncryptionLevel \<Rightarrow> bool" where
  "default_exponent p e \<longleftrightarrow> e = Encryption1RTT \<longrightarrow> fp_ackDelayExponent p = AckDelayExponent"

lemmas parse_frame_defs =
  parse_frame_def ParseLessCommonFrame_def wrap_error_def IsStreamFrameType_def IsAckFrameType_def
  IsDatagramFrameType_def frame_type_defs

lemma written_stream:
  "wf_StreamFrame f \<Longrightarrow> \<exists>c. \<forall>b r. frame_Append b (FStream f) = Done (Inr (b @ enc (stream_type f) @ c)) \<and>
     frame_Length (FStream f) = Done (int (length (enc (stream_type f) @ c))) \<and>
     (delimited (FStream f) \<or> r = [] \<longrightarrow>
        parse_frame p (stream_type f) (c @ r) e = Done (Inr (received (FStream f), int (length c))))"
  using stream_written[of f]
  by (auto simp: parse_frame_def FrameParser_ParseStreamFrame_def wrap_error_def enc_stream_type)

lemma written_ack:
  "wf_AckFrame f \<Longrightarrow> default_exponent p e \<Longrightarrow>
   \<exists>c. \<forall>b r. frame_Append b (FAck f) = Done (Inr (b @ enc (ack_type f) @ c)) \<and>
     frame_Length (FAck f) = Done (int (length (enc (ack_type f) @ c))) \<and>
     parse_frame p (ack_type f) (c @ r) e = Done (Inr (received (FAck f), int (length c)))"
  using ack_written[of f]
  by (auto simp: parse_frame_def FrameParser_ParseAckFrame_def wrap_error_def ack_type_def frame_type_defs
      IsStreamFrameType_def IsAckFrameType_def default_exponent_def DefaultAckDelayExponent_def
      AckDelayExponent_def AckFrame_Reset_empty)

lemma written_datagram:
  "int (length (dg_Data f)) < 2 ^ 62 \<Longrightarrow>
   \<exists>c. \<forall>b r. frame_Append b (FDatagram f) = Done (Inr (b @ enc (datagram_type f) @ c)) \<and>
     frame_Length (FDatagram f) = Done (int (length (enc (datagram_type f) @ c))) \<and>
     (delimited (FDatagram f) \<or> r = [] \<longrightarrow>
       parse_frame p (datagram_type f) (c @ r) e = Done (Inr (FDatagram f, int (length c))))"
  using datagram.written[of f] datagram_last_written[of f]
  by (cases "dg_DataLenPresent f")
     (auto simp: parse_frame_def FrameParser_ParseDatagramFrame_def wrap_error_def datagram_type_def frame_type_defs
      IsStreamFrameType_def IsAckFrameType_def IsDatagramFrameType_def wf_DatagramFrame_def)

lemma pull_Inr: "pull x = Inr (f, n) \<longleftrightarrow> x = Inr (Done f, n)"
  by (cases x rule: pull.cases) auto

lemma frame_written:
  assumes "wf_frame f" "default_exponent p e"
  shows "\<exists>c. \<forall>b r. frame_Append b f = Done (Inr (b @ enc (frame_type f) @ c)) \<and>
     frame_Length f = Done (int (length (enc (frame_type f) @ c))) \<and>
     (delimited f \<or> r = [] \<longrightarrow>
        parse_frame p (frame_type f) (c @ r) e = Done (Inr (received f, int (length c))))"
proof (cases f)
  case PingFrame
  then show ?thesis by (auto simp: parse_frame_defs enc_byte maxVarInt1_def word_le_def)
next
  case HandshakeDoneFrame
  then show ?thesis by (auto simp: parse_frame_defs enc_byte maxVarInt1_def)
next
  case ImmediateAckFrame
  then show ?thesis by (auto simp: parse_frame_defs enc_byte small_in_range maxVarInt1_def)
next
  case (FStream g)
  then show ?thesis using assms(1) written_stream[of g p e] by simp
next
  case (FAck g)
  then show ?thesis using assms written_ack[of g p e] by simp
next
  case (FDatagram g)
  then show ?thesis using assms(1) written_datagram[of g p e] by simp
next
  case (FNewConnectionID g)
  then show ?thesis using assms(1) new_connection_id.written[of g] by (auto simp: parse_frame_defs pull_Inr)
next
  case (FResetStream g)
  then show ?thesis using assms(1) reset_stream.written[of g] by (auto simp: parse_frame_defs reset_stream_type_def)
next
  case (FStopSending g)
  then show ?thesis using assms(1) stop_sending.written[of g] by (auto simp: parse_frame_defs )
next
  case (FCrypto g)
  then show ?thesis using assms(1) crypto.written[of g] by (auto simp: parse_frame_defs )
next
  case (FNewToken g)
  then show ?thesis using assms(1) new_token.written[of g] by (auto simp: parse_frame_defs )
next
  case (FMaxData g)
  then show ?thesis using assms(1) max_data.written[of g] by (auto simp: parse_frame_defs )
next
  case (FMaxStreamData g)
  then show ?thesis using assms(1) max_stream_data.written[of g] by (auto simp: parse_frame_defs )
next
  case (FMaxStreams g)
  then show ?thesis using assms(1) max_streams.written[of g] by (auto simp: parse_frame_defs max_streams_type_def split: StreamType.splits)
next
  case (FDataBlocked g)
  then show ?thesis using assms(1) data_blocked.written[of g] by (auto simp: parse_frame_defs )
next
  case (FStreamDataBlocked g)
  then show ?thesis using assms(1) stream_data_blocked.written[of g] by (auto simp: parse_frame_defs )
next
  case (FStreamsBlocked g)
  then show ?thesis using assms(1) streams_blocked.written[of g] by (auto simp: parse_frame_defs streams_blocked_type_def split: StreamType.splits)
next
  case (FRetireConnectionID g)
  then show ?thesis using assms(1) retire_connection_id.written[of g] by (auto simp: parse_frame_defs )
next
  case (FPathChallenge g)
  then show ?thesis using assms(1) path_challenge.written[of g] by (auto simp: parse_frame_defs )
next
  case (FPathResponse g)
  then show ?thesis using assms(1) path_response.written[of g] by (auto simp: parse_frame_defs )
next
  case (FConnectionClose g)
  then show ?thesis using assms(1) connection_close.written[of g] by (auto simp: parse_frame_defs connection_close_type_def)
next
  case (FAckFrequency g)
  then show ?thesis using assms(1) ack_frequency.written[of g] by (auto simp: parse_frame_defs )
qed

lemma frame_type_range: "in_range (frame_type f)" "frame_type f \<noteq> 0"
proof -
  show "in_range (frame_type f)"
    using reset_stream.ftype_range max_streams.ftype_range streams_blocked.ftype_range connection_close.ftype_range
      stream.ftype_range ack.ftype_range datagram.ftype_range ack_frequency.ftype_range
    by (cases f) (simp_all add: codec_defs enc_ack_frequency)
  have "stream_type g \<noteq> 0" for g
    using enc_stream_type(2)[of g] by (auto simp: IsStreamFrameType_def word_le_def)
  then show "frame_type f \<noteq> 0"
    by (cases f) (auto simp: frame_type_defs reset_stream_type_def max_streams_type_def streams_blocked_type_def
        connection_close_type_def ack_type_def datagram_type_def IsStreamFrameType_def word_le_def
        split: StreamType.splits)
qed

text \<open>Padding before a frame type is skipped, padding at the end is the end.\<close>

lemma Parse_padding: "Parse (0 # b) = Inr (0, 1)"
  by (simp add: Parse_def)

lemma parse_type_padding:
  "parse_type_loop p e n (replicate k 0 @ b) = parse_type_loop p e (n + int k) b"
proof (induction k arbitrary: n)
  case (Suc k)
  have "parse_type_loop p e n (replicate (Suc k) 0 @ b) = parse_type_loop p e (n + 1) (replicate k 0 @ b)"
    by (subst parse_type_loop.simps) (simp add: Parse_padding)
  then show ?case using Suc[of "n + 1"] by (simp add: algebra_simps)
qed simp

lemma ParseType_frame:
  assumes "valid_type p (frame_type f)" "isAllowedAtEncLevel (frame_type f) e"
  shows "ParseType p (replicate k 0 @ enc (frame_type f) @ c) e =
           (Inr (frame_type f), int k + int (length (enc (frame_type f))))"
  unfolding ParseType_def parse_type_padding
  using assms frame_type_range[of f] by (subst parse_type_loop.simps) simp

lemma ParseType_end: "ParseType p (replicate k 0) e = (Inl NoMoreFrames, int k)"
  using parse_type_padding[of p e 0 k "[]"] parse_type_loop.simps[of p e "int k" "[]"]
  by (simp add: ParseType_def)

text \<open>The payload that frames with padding before them and at the end are written to.\<close>

fun append_frames :: "bytes \<Rightarrow> (nat \<times> frame) list \<Rightarrow> (frame_error + bytes) outcome" where
  "append_frames b [] = Done (Inr b)"
| "append_frames b ((k, f) # fs) =
     bind_outcome (frame_Append (b @ replicate k 0) f)
       (\<lambda>r. case r of Inl e \<Rightarrow> Done (Inl e) | Inr b \<Rightarrow> append_frames b fs)"

definition sendable :: "FrameParser \<Rightarrow> EncryptionLevel \<Rightarrow> frame \<Rightarrow> bool" where
  "sendable p e f \<longleftrightarrow> wf_frame f \<and> valid_type p (frame_type f) \<and> isAllowedAtEncLevel (frame_type f) e"

lemma payload_parsed:
  assumes "list_all (\<lambda>(k, f). sendable p e f) fs" "default_exponent p e"
    "list_all (\<lambda>(k, f). delimited f) (butlast fs)" "fs \<noteq> [] \<and> \<not> delimited (snd (last fs)) \<longrightarrow> k = 0"
  shows "\<exists>d. (\<forall>b. append_frames b fs = Done (Inr (b @ d))) \<and>
     parse_all p e (d @ replicate k 0) = (map (\<lambda>(_, f). (frame_type f, received f)) fs, None)"
  using assms(1,3,4)
proof (induction fs)
  case Nil
  show ?case by (subst parse_all.simps) (auto simp: ParseType_end)
next
  case (Cons x fs)
  obtain m f where x: "x = (m, f)" by fastforce
  have f: "wf_frame f" "valid_type p (frame_type f)" "isAllowedAtEncLevel (frame_type f) e"
    using Cons.prems(1) by (auto simp: x sendable_def)
  obtain d where d: "\<And>b. append_frames b fs = Done (Inr (b @ d))"
      "parse_all p e (d @ replicate k 0) = (map (\<lambda>(_, f). (frame_type f, received f)) fs, None)"
    using Cons by (auto simp: x split: if_splits)
  obtain c where c: "\<And>b r. frame_Append b f = Done (Inr (b @ enc (frame_type f) @ c))"
      "\<And>r. delimited f \<or> r = [] \<Longrightarrow>
        parse_frame p (frame_type f) (c @ r) e = Done (Inr (received f, int (length c)))"
    using frame_written[OF f(1) assms(2)] by metis
  have dl: "delimited f \<or> d @ replicate k 0 = []"
  proof (cases "fs = []")
    case True
    then have "d = []" using d(1)[of "[]"] by simp
    then show ?thesis using Cons.prems(3) True by (auto simp: x)
  next
    case False
    then show ?thesis using Cons.prems(2) by (simp add: x)
  qed
  let ?d = "replicate m 0 @ enc (frame_type f) @ c @ d"
  have "parse_all p e (?d @ replicate k 0) = (map (\<lambda>(_, f). (frame_type f, received f)) (x # fs), None)"
  proof -
    have ne: "?d @ replicate k 0 \<noteq> []" using frame_type_range(1)[of f] by simp
    have pt: "ParseType p (?d @ replicate k 0) e = (Inr (frame_type f), int m + int (length (enc (frame_type f))))"
      using ParseType_frame[OF f(2,3), of m "c @ d @ replicate k 0"] by simp
    have dr: "drop (nat (int m + int (length (enc (frame_type f))))) (?d @ replicate k 0) = c @ d @ replicate k 0"
      by (simp add: nat_add_distrib)
    show ?thesis
      using ne pt dr c(2)[OF dl] d(2) by (subst parse_all.simps) (simp add: x)
  qed
  moreover have "append_frames b (x # fs) = Done (Inr (b @ ?d))" for b
    using c(1)[of "b @ replicate m 0"] d(1) by (simp add: x)
  ultimately show ?case by blast
qed

lemma type_and_frame:
  "IsFrameTypeAckEliciting (frame_type f) = IsFrameAckEliciting f"
  "IsProbingFrameType (frame_type f) = IsProbingFrame f"
proof -
  have st: "8 \<le> stream_type g" "stream_type g \<le> 15" for g
    using enc_stream_type(2)[of g] by (auto simp: IsStreamFrameType_def)
  have st': "stream_type g \<noteq> 2" "stream_type g \<noteq> 3" "stream_type g \<noteq> 0x18" "stream_type g \<noteq> 0x1a"
    "stream_type g \<noteq> 0x1b" "stream_type g \<noteq> 0x1c" "stream_type g \<noteq> 0x1d" for g
    using st[of g] by auto
  show "IsFrameTypeAckEliciting (frame_type f) = IsFrameAckEliciting f"
    by (cases f) (auto simp: IsFrameTypeAckEliciting_def IsFrameAckEliciting_def frame_type_defs st'
        reset_stream_type_def max_streams_type_def streams_blocked_type_def connection_close_type_def
        ack_type_def datagram_type_def split: StreamType.splits)
  show "IsProbingFrameType (frame_type f) = IsProbingFrame f"
    by (cases f) (auto simp: IsProbingFrameType_def IsProbingFrame_def frame_type_defs st'
        reset_stream_type_def max_streams_type_def streams_blocked_type_def connection_close_type_def
        ack_type_def datagram_type_def split: StreamType.splits)
qed

text \<open>A handler that accepts and records every frame.\<close>

definition collect :: "(frame list, 'e) frame_handler" where
  "collect f c = (c @ [f], None, None)"

lemma run_collect:
  assumes "\<not> hf_skipHandling st"
  shows "\<exists>st'. run_frames collect False fs st = (st', None) \<and> hf_conn st' = hf_conn st @ map snd fs \<and>
     hf_isAckEliciting st' = (hf_isAckEliciting st \<or> (\<exists>(t, f) \<in> set fs. IsFrameTypeAckEliciting t)) \<and>
     hf_isNonProbing st' = (hf_isNonProbing st \<or> (\<exists>(t, f) \<in> set fs. \<not> IsProbingFrameType t))"
  using assms
proof (induction fs arbitrary: st)
  case (Cons x fs)
  obtain t f where x: "x = (t, f)" by fastforce
  let ?s = "run_handler collect f (note_frame False f (note_type t st))"
  have "\<not> hf_skipHandling ?s" "hf_handleErr ?s = None"
    using Cons.prems by (simp_all add: run_handler_def collect_def note_frame_def note_type_def)
  then show ?case
    using Cons.IH[of ?s] Cons.prems
    by (auto simp: x run_handler_def collect_def note_frame_def note_type_def)
qed simp

text \<open>
  (C17) A packet arrives as it was sent. Frames that are within the bounds of the format, that the
  receiver supports and that are allowed at the encryption level, with any padding before, between
  and after them, are written without an error; the loop of the receiver handles exactly these
  frames in their order, and it says whether the packet elicits an acknowledgement and whether
  it has other than probing frames as the frames say. Only the last frame may take the rest of the
  packet. What may differ in a frame is the resolution of the delay and the number of ranges of
  an ACK frame, and the buffer of a STREAM frame.
\<close>

theorem packet_roundtrip:
  fixes hhc :: "frame list \<Rightarrow> frame list \<times> 'e option"
  assumes "list_all (\<lambda>(k, f). sendable p e f) fs" "default_exponent p e"
    and "list_all (\<lambda>(k, f). delimited f) (butlast fs)"
    and "fs \<noteq> [] \<and> \<not> delimited (snd (last fs)) \<longrightarrow> pad = 0"
  shows "\<exists>d st. append_frames [] fs = Done (Inr d) \<and>
     handleFrames p e collect (\<lambda>_. False) hhc False (d @ replicate pad 0) [] = Done (st, None) \<and>
     hf_conn st = map (\<lambda>(k, f). received f) fs \<and>
     hf_isAckEliciting st = HasAckElicitingFrames (map snd fs) \<and>
     hf_isNonProbing st = (\<exists>f \<in> set (map snd fs). \<not> IsProbingFrame f)"
proof -
  obtain d where d: "\<And>b. append_frames b fs = Done (Inr (b @ d))"
      "parse_all p e (d @ replicate pad 0) = (map (\<lambda>(_, f). (frame_type f, received f)) fs, None)"
    using payload_parsed[OF assms] by blast
  define items where "items = map (\<lambda>(_ :: nat, f). (frame_type f, received f)) fs"
  have i: "\<not> hf_skipHandling (init_frames c :: (frame list, 'e) frames_state)" "hf_conn (init_frames c :: (frame list, 'e) frames_state) = c"
      "\<not> hf_isAckEliciting (init_frames c :: (frame list, 'e) frames_state)"
      "\<not> hf_isNonProbing (init_frames c :: (frame list, 'e) frames_state)" for c :: "frame list"
    by (simp_all add: init_frames_def)
  obtain st :: "(frame list, 'e) frames_state" where st: "run_frames collect False items (init_frames []) = (st, None)"
      "hf_conn st = map snd items" "hf_isAckEliciting st = (\<exists>(t, f) \<in> set items. IsFrameTypeAckEliciting t)"
      "hf_isNonProbing st = (\<exists>(t, f) \<in> set items. \<not> IsProbingFrameType t)"
    using run_collect[OF i(1)[of "[]"], of items] by (auto simp: i)
  have "handleFrames p e collect (\<lambda>_. False) hhc False (d @ replicate pad 0) [] = Done (st, None)"
    using st(1) by (simp add: handleFrames_fold d(2) items_def)
  moreover have "hf_conn st = map (\<lambda>(k, f). received f) fs" using st(2) by (auto simp: items_def comp_def case_prod_beta)
  moreover have "hf_isAckEliciting st = HasAckElicitingFrames (map snd fs)"
    using st(3) by (force simp: items_def type_and_frame HasAckElicitingFrames_def list_ex_iff)
  moreover have "hf_isNonProbing st = (\<exists>f \<in> set (map snd fs). \<not> IsProbingFrame f)"
    using st(4) by (force simp: items_def type_and_frame)
  ultimately show ?thesis using d(1)[of "[]"] by auto
qed

theorem packet_roundtrip_witness:
  "\<exists>d st. append_frames [] [(2, PingFrame), (0, FCrypto \<lparr> cf_Offset = 3, cf_Data = [1, 2] \<rparr>)] = Done (Inr d) \<and>
     handleFrames (NewFrameParser False False False) EncryptionInitial collect (\<lambda>_. False)
       (\<lambda>c. (c, None :: unit option)) False (d @ replicate 5 0) [] = Done (st, None) \<and>
     hf_conn st = map (\<lambda>(k, f). received f) [(2 :: nat, PingFrame), (0, FCrypto \<lparr> cf_Offset = 3, cf_Data = [1, 2] \<rparr>)] \<and>
     hf_isAckEliciting st = HasAckElicitingFrames (map snd [(2 :: nat, PingFrame), (0, FCrypto \<lparr> cf_Offset = 3, cf_Data = [1, 2] \<rparr>)]) \<and>
     hf_isNonProbing st = (\<exists>f \<in> set (map snd [(2 :: nat, PingFrame), (0, FCrypto \<lparr> cf_Offset = 3, cf_Data = [1, 2] \<rparr>)]). \<not> IsProbingFrame f)"
  by (rule packet_roundtrip) code_simp+

section \<open>What the parser returns\<close>

text \<open>The bounds of the fields of a frame that was parsed.\<close>

fun type_ok :: "frame \<Rightarrow> bool" where
  "type_ok (FStream f) \<longleftrightarrow> fits (sf_StreamID f) \<and> fits (sf_Offset f) \<and>
     int (length (sf_Data f)) \<le> MaxPacketBufferSize \<and> sf_Offset f + int (length (sf_Data f)) \<le> MaxByteCount"
| "type_ok (FAckFrequency f) \<longleftrightarrow> in_range (af_SequenceNumber f) \<and> in_range (af_AckElicitingThreshold f) \<and>
     0 \<le> af_RequestMaxAckDelay f \<and> af_RequestMaxAckDelay f \<le> max_int64 \<and> fits (af_ReorderingThreshold f)"
| "type_ok (FDatagram f) = True"
| "type_ok f = wf_frame f"

lemma to_i64_mono: "in_range a \<Longrightarrow> in_range b \<Longrightarrow> a \<le> b \<Longrightarrow> to_i64 a \<le> to_i64 b"
  by (simp add: to_i64_in_range word_le_def)

lemma to_i64_nonneg: "in_range a \<Longrightarrow> 0 \<le> to_i64 a"
  using to_i64_bounds by blast

lemma take_short: "in_range l \<Longrightarrow> min n (unat l) < 4611686018427387904"
proof -
  assume "in_range l"
  then have "uint l < 2 ^ 62" by (rule uint_in_range)
  then have "int (unat l) < int 4611686018427387904" by simp
  then have "unat l < 4611686018427387904" by (simp only: of_nat_less_iff)
  then show ?thesis by simp
qed

lemma uint_pos: "(v::u64) \<noteq> 0 \<Longrightarrow> 0 < uint v"
  using uint_nonnegative[of v] by (simp add: order_less_le uint_0_iff)

lemma numbers_parsed:
  "parseStopSendingFrame b = Inr (f1, n) \<Longrightarrow> wf_StopSendingFrame f1"
  "parseMaxDataFrame b = Inr (f2, n) \<Longrightarrow> wf_MaxDataFrame f2"
  "parseMaxStreamDataFrame b = Inr (f3, n) \<Longrightarrow> wf_MaxStreamDataFrame f3"
  "parseMaxStreamsFrame b t = Inr (f4, n) \<Longrightarrow> wf_MaxStreamsFrame f4"
  "parseDataBlockedFrame b = Inr (f5, n) \<Longrightarrow> wf_DataBlockedFrame f5"
  "parseStreamDataBlockedFrame b = Inr (f6, n) \<Longrightarrow> wf_StreamDataBlockedFrame f6"
  "parseStreamsBlockedFrame b t = Inr (f7, n) \<Longrightarrow> wf_StreamsBlockedFrame f7"
  "parseRetireConnectionIDFrame b = Inr (f8, n) \<Longrightarrow> wf_RetireConnectionIDFrame f8"
  "parsePathChallengeFrame b = Inr (f9, n) \<Longrightarrow> wf_PathChallengeFrame f9"
  "parsePathResponseFrame b = Inr (f10, n) \<Longrightarrow> wf_PathResponseFrame f10"
  by (auto simp: parseStopSendingFrame_def wf_StopSendingFrame_def parseMaxDataFrame_def wf_MaxDataFrame_def
      parseMaxStreamDataFrame_def wf_MaxStreamDataFrame_def parseMaxStreamsFrame_def wf_MaxStreamsFrame_def
      parseDataBlockedFrame_def wf_DataBlockedFrame_def parseStreamDataBlockedFrame_def
      wf_StreamDataBlockedFrame_def parseStreamsBlockedFrame_def wf_StreamsBlockedFrame_def
      parseRetireConnectionIDFrame_def wf_RetireConnectionIDFrame_def parsePathChallengeFrame_def
      wf_PathChallengeFrame_def parsePathResponseFrame_def wf_PathResponseFrame_def Let_def
      elim!: varint_within split: if_splits)

lemma data_parsed:
  "parseCryptoFrame b = Inr (f1, n) \<Longrightarrow> wf_CryptoFrame f1"
  "parseNewTokenFrame b = Inr (f2, n) \<Longrightarrow> wf_NewTokenFrame f2"
  "parseConnectionCloseFrame b t = Inr (f3, n) \<Longrightarrow> wf_ConnectionCloseFrame f3"
  "parseResetStreamFrame b at = Inr (f4, n) \<Longrightarrow> wf_ResetStreamFrame f4"
  "parseNewConnectionIDFrame b = Inr (Done f5, n) \<Longrightarrow> wf_NewConnectionIDFrame f5"
proof -
  show "parseCryptoFrame b = Inr (f1, n) \<Longrightarrow> wf_CryptoFrame f1"
    by (auto simp: parseCryptoFrame_def wf_CryptoFrame_def take_short elim!: varint_within split: if_splits)
  show "parseNewTokenFrame b = Inr (f2, n) \<Longrightarrow> wf_NewTokenFrame f2"
    by (auto simp: parseNewTokenFrame_def wf_NewTokenFrame_def take_short unat_eq_0 uint_pos elim!: varint_within split: if_splits)
  show "parseConnectionCloseFrame b t = Inr (f3, n) \<Longrightarrow> wf_ConnectionCloseFrame f3"
    by (auto simp: parseConnectionCloseFrame_def wf_ConnectionCloseFrame_def take_short Let_def
        elim!: varint_within split: if_splits)
  show "parseResetStreamFrame b at = Inr (f4, n) \<Longrightarrow> wf_ResetStreamFrame f4"
    by (auto simp: parseResetStreamFrame_def wf_ResetStreamFrame_def to_i64_nonneg to_i64_mono not_less Let_def
        elim!: varint_within split: if_splits)
  show "parseNewConnectionIDFrame b = Inr (Done f5, n) \<Longrightarrow> wf_NewConnectionIDFrame f5"
    by (auto simp: parseNewConnectionIDFrame_def wf_NewConnectionIDFrame_def ParseConnectionID_def not_less Let_def
        elim!: varint_within split: if_splits list.splits)
qed

lemma ack_frequency_parsed: "parseAckFrequencyFrame b = Inr (f, n) \<Longrightarrow> type_ok (FAckFrequency f)"
  using wrap64_range
  by (auto simp: parseAckFrequencyFrame_def Let_def max_int64_def elim!: varint_within)

lemma stream_finish_parsed:
  assumes "stream_finish st fin dl sid off n b = Inr (f, m)" "in_range sid" "in_range off"
  shows "type_ok (FStream f)"
proof -
  have "int (length (take n b)) \<le> int n" by simp
  then show ?thesis
    using assms unfolding stream_finish_def MinStreamFrameBufferSize_def MaxPacketBufferSize_def
    by (auto simp: MaxPacketBufferSize_def simp del: length_take split: if_splits)
qed

lemma stream_parsed: "ParseStreamFrame b t = Inr (f, n) \<Longrightarrow> type_ok (FStream f)"
  unfolding ParseStreamFrame_def Let_def
  by (auto elim!: varint_within split: if_split_asm dest!: stream_finish_parsed simp del: type_ok.simps)

lemmas parsed_ok = numbers_parsed data_parsed ack_frequency_parsed stream_parsed

lemma less_common_parsed: "ParseLessCommonFrame t b = Done (Inr (f, n)) \<Longrightarrow> type_ok f"
  unfolding ParseLessCommonFrame_def
  by (auto simp: wrap_error_Inr simp del: type_ok.simps(2) split: if_split_asm sum.splits outcome.splits
      dest: parsed_ok) (erule data_parsed(5))

text \<open>
  (C18) The parser of frames is safe on any input: it does not panic, a frame type takes at least one
  byte, no frame reads past the end of the packet, only types that are valid and allowed at the
  encryption level get through, and the fields of every frame that is returned are within the
  bounds of their types.
\<close>

theorem frame_parser_safe:
  "case ParseType p b encLevel of (r, l) \<Rightarrow>
     0 \<le> l \<and> l \<le> int (length b) \<and>
     (case r of Inl e \<Rightarrow> True
      | Inr t \<Rightarrow> 0 < l \<and> t \<noteq> 0 \<and> valid_type p t \<and> isAllowedAtEncLevel t encLevel \<and>
          (case parse_frame p t c encLevel of
             Panic \<Rightarrow> False
           | Done (Inl e) \<Rightarrow> True
           | Done (Inr (f, n)) \<Rightarrow> 0 \<le> n \<and> n \<le> int (length c) \<and> type_ok f))"
proof -
  obtain r l where rl: "ParseType p b encLevel = (r, l)" by fastforce
  note bd = ParseType_bounds[OF rl]
  have "type_ok f" if "parse_frame p t c encLevel = Done (Inr (f, n))" for t f n
    using that less_common_parsed[of t c f n]
    by (auto simp: parse_frame_def FrameParser_ParseStreamFrame_def FrameParser_ParseAckFrame_def
        FrameParser_ParseDatagramFrame_def Let_def wrap_error_Inr AckFrame_Reset_empty simp del: type_ok.simps(1)
        split: if_split_asm dest: stream_parsed ack_parsed)
  then show ?thesis
    using bd parse_frame_safe[of p _ c encLevel]
    by (auto simp: rl split: sum.splits outcome.splits)
qed

end
