(* ===== verification/Go_Float.thy ===== *)
theory Go_Float
  imports Complex_Main Gost_Prelude "HOL-Library.Log_Nat"
begin

text \<open>
  The floating point arithmetic of Go: a finite binary number is a rational, and every operation
  rounds its exact result to the nearest number with \<open>p\<close> significant bits, ties to even
  (\<open>p = 53\<close> for float64, \<open>p = 24\<close> for float32). The numbers of the program are sizes, times and
  ratios of them; they stay far from the smallest and the largest exponent, so that gradual
  underflow and infinities are left out. A conversion to an integer cuts the fraction off.
\<close>

section \<open>Definitions\<close>

definition round_even :: "rat \<Rightarrow> int" where
  "round_even x =
     (let f = \<lfloor>x\<rfloor>; r = x - of_int f
      in if r < 1 / 2 then f else if 1 / 2 < r then f + 1 else if even f then f else f + 1)"

definition pow2 :: "int \<Rightarrow> rat" where
  "pow2 e = (if 0 \<le> e then 2 ^ nat e else 1 / 2 ^ nat (- e))"

text \<open>The exponent \<open>e\<close> of a positive number, \<open>2 ^ e \<le> x < 2 ^ (e + 1)\<close>.\<close>

definition binary_exponent :: "rat \<Rightarrow> int" where
  "binary_exponent x =
     (let (p, q) = quotient_of x; d = bitlen p - bitlen q in if pow2 d \<le> x then d else d - 1)"

definition fl_pos :: "int \<Rightarrow> rat \<Rightarrow> rat" where
  "fl_pos p x = (let u = pow2 (binary_exponent x - (p - 1)) in of_int (round_even (x / u)) * u)"

definition fl :: "int \<Rightarrow> rat \<Rightarrow> rat" where
  "fl p x = (if x = 0 then 0 else if x < 0 then - fl_pos p (- x) else fl_pos p x)"

abbreviation float64 :: "rat \<Rightarrow> rat" where
  "float64 \<equiv> fl 53"

abbreviation float32 :: "rat \<Rightarrow> rat" where
  "float32 \<equiv> fl 24"

definition trunc :: "rat \<Rightarrow> int" where
  "trunc x = (if x < 0 then \<lceil>x\<rceil> else \<lfloor>x\<rfloor>)"

section \<open>Rounding\<close>

lemma round_even_int [simp]: "round_even (of_int n) = n"
  by (simp add: round_even_def)

lemma round_even_mono: "x \<le> y \<Longrightarrow> round_even x \<le> round_even y"
proof -
  assume xy: "x \<le> y"
  then have f: "\<lfloor>x\<rfloor> \<le> \<lfloor>y\<rfloor>" by (rule floor_mono)
  have lo: "\<lfloor>z\<rfloor> \<le> round_even z" and hi: "round_even z \<le> \<lfloor>z\<rfloor> + 1" for z
    by (auto simp: round_even_def Let_def)
  show ?thesis
  proof (cases "\<lfloor>x\<rfloor> = \<lfloor>y\<rfloor>")
    case True
    then show ?thesis using xy by (auto simp: round_even_def Let_def)
  next
    case False
    then show ?thesis using f lo[of y] hi[of x] by linarith
  qed
qed

lemma pow2_pos [simp]: "0 < pow2 e"
  by (simp add: pow2_def)

lemma pow2_not_zero [simp]: "pow2 e \<noteq> 0" "\<not> pow2 e < 0"
  using pow2_pos[of e] by (auto simp del: pow2_pos)

lemma pow2_powi: "pow2 e = 2 powi e"
  by (simp add: pow2_def power_int_def field_simps)

lemma pow2_add: "pow2 (a + b) = pow2 a * pow2 b"
  by (simp add: pow2_powi power_int_add)

lemma pow2_mono: "a \<le> b \<Longrightarrow> pow2 a \<le> pow2 b"
  by (simp add: pow2_powi power_int_increasing)

lemma pow2_nat: "0 \<le> e \<Longrightarrow> pow2 e = of_int (2 ^ nat e)"
  by (simp add: pow2_def)

lemma binary_exponent:
  assumes "0 < x"
  shows "pow2 (binary_exponent x) \<le> x" "x < pow2 (binary_exponent x + 1)"
proof -
  obtain p q where pq: "quotient_of x = (p, q)" by force
  then have x: "x = of_int p / of_int q" and q: "0 < q"
    using quotient_of_div quotient_of_denom_pos by blast+
  have p: "0 < p" using assms x q by (simp add: zero_less_divide_iff)
  have b: "pow2 (bitlen n - 1) \<le> of_int n \<and> of_int n < pow2 (bitlen n)" if "0 < n" for n
  proof -
    have "1 \<le> bitlen n" using that by (simp add: bitlen_def floorlog_def)
    then show ?thesis using bitlen_bounds[OF that]
      by (metis (no_types, lifting) diff_ge_0_iff_ge of_int_le_iff of_int_less_iff pow2_nat
          order.trans zero_le_one)
  qed
  let ?d = "bitlen p - bitlen q"
  have up: "x < pow2 (?d + 1)"
  proof -
    have "of_int p < pow2 (bitlen p)" using b[OF p] by simp
    also have "\<dots> = pow2 (?d + 1) * pow2 (bitlen q - 1)" by (simp flip: pow2_add)
    also have "\<dots> \<le> pow2 (?d + 1) * of_int q" using b[OF q] by (intro mult_left_mono) (auto intro: less_imp_le)
    finally show ?thesis using q by (simp add: x field_simps)
  qed
  have lo: "pow2 (?d - 1) \<le> x"
  proof -
    have "pow2 (?d - 1) * of_int q \<le> pow2 (?d - 1) * pow2 (bitlen q)"
      using b[OF q] by (intro mult_left_mono) (auto intro: less_imp_le)
    also have "\<dots> = pow2 (bitlen p - 1)" by (simp flip: pow2_add)
    also have "\<dots> \<le> of_int p" using b[OF p] by simp
    finally show ?thesis using q by (simp add: x field_simps)
  qed
  show "pow2 (binary_exponent x) \<le> x" "x < pow2 (binary_exponent x + 1)"
    using up lo by (auto simp: binary_exponent_def pq Let_def)
qed

lemma fl_pos_within:
  assumes "0 < x" "1 \<le> p"
  shows "pow2 (binary_exponent x) \<le> fl_pos p x" "fl_pos p x \<le> pow2 (binary_exponent x + 1)"
proof -
  let ?e = "binary_exponent x" and ?u = "pow2 (binary_exponent x - (p - 1))"
  have u: "of_int (2 ^ nat k) * ?u = pow2 (?e - (p - 1) + k)" if "0 \<le> k" for k
    using that by (simp only: pow2_add pow2_nat mult.commute)
  have "of_int (2 ^ nat (p - 1)) \<le> x / ?u"
    using binary_exponent(1)[OF assms(1)] u[of "p - 1"] assms(2) by (simp add: pos_le_divide_eq)
  then have "2 ^ nat (p - 1) \<le> round_even (x / ?u)"
    using round_even_mono round_even_int by metis
  then have "of_int (2 ^ nat (p - 1)) * ?u \<le> fl_pos p x"
    unfolding fl_pos_def Let_def by (intro mult_right_mono) (simp_all only: of_int_le_iff less_imp_le[OF pow2_pos])
  then show "pow2 ?e \<le> fl_pos p x" using u[of "p - 1"] assms(2) by simp
  have "x / ?u \<le> of_int (2 ^ nat p)"
    using binary_exponent(2)[OF assms(1)] u[of p] assms(2) by (simp add: pos_divide_le_eq)
  then have "round_even (x / ?u) \<le> 2 ^ nat p"
    using round_even_mono round_even_int by metis
  then have "fl_pos p x \<le> of_int (2 ^ nat p) * ?u"
    unfolding fl_pos_def Let_def by (intro mult_right_mono) (simp_all only: of_int_le_iff less_imp_le[OF pow2_pos])
  then show "fl_pos p x \<le> pow2 (?e + 1)" using u[of p] assms(2) by simp
qed

lemma fl_pos_mono:
  assumes "0 < x" "x \<le> y" "1 \<le> p"
  shows "fl_pos p x \<le> fl_pos p y"
proof -
  have y: "0 < y" using assms by simp
  have "binary_exponent x \<le> binary_exponent y"
  proof (rule ccontr)
    assume "\<not> ?thesis"
    then have "pow2 (binary_exponent y + 1) \<le> pow2 (binary_exponent x)" by (intro pow2_mono) simp
    then show False using binary_exponent(1)[OF assms(1)] binary_exponent(2)[OF y] assms(2) by linarith
  qed
  then consider "binary_exponent x = binary_exponent y" | "binary_exponent x + 1 \<le> binary_exponent y" by linarith
  then show ?thesis
  proof cases
    case 1
    have "x / pow2 (binary_exponent y - (p - 1)) \<le> y / pow2 (binary_exponent y - (p - 1))"
      using assms(2) by (intro divide_right_mono) (auto intro: less_imp_le)
    then show ?thesis unfolding fl_pos_def Let_def 1
      by (intro mult_right_mono) (auto intro: round_even_mono less_imp_le)
  next
    case 2
    then show ?thesis
      using fl_pos_within(2)[OF assms(1,3)] fl_pos_within(1)[OF y assms(3)] pow2_mono[OF 2] by linarith
  qed
qed

lemma fl_pos_pos: "0 < x \<Longrightarrow> 1 \<le> p \<Longrightarrow> 0 < fl_pos p x"
  using fl_pos_within(1)[of x p] pow2_pos order_less_le_trans by blast

lemma fl_nonneg [simp]: "0 \<le> x \<Longrightarrow> 1 \<le> p \<Longrightarrow> 0 \<le> fl p x"
  by (auto simp: fl_def intro: less_imp_le[OF fl_pos_pos])

lemma fl_mono: "x \<le> y \<Longrightarrow> 1 \<le> p \<Longrightarrow> fl p x \<le> fl p y"
  using fl_pos_mono[of x y p] fl_pos_mono[of "- y" "- x" p] fl_pos_pos[of y p] fl_pos_pos[of "- x" p]
  by (auto simp: fl_def)

lemma fl_int:
  assumes "\<bar>n\<bar> < 2 ^ nat p" "1 \<le> p"
  shows "fl p (of_int n) = of_int n"
proof -
  have pos: "fl_pos p (of_int m) = of_int m" if "0 < m" "m < 2 ^ nat p" for m
  proof -
    let ?e = "binary_exponent (of_int m)"
    have m: "0 < (of_int m :: rat)" using that by simp
    have e: "?e \<le> p - 1"
    proof (rule ccontr)
      assume "\<not> ?thesis"
      then have "pow2 p \<le> pow2 ?e" by (intro pow2_mono) simp
      moreover have "(of_int m :: rat) < pow2 p" using that assms(2) by (simp add: pow2_nat del: of_int_power)
      ultimately show False using binary_exponent(1)[OF m] by linarith
    qed
    have "of_int m / pow2 (?e - (p - 1)) = of_int m * pow2 (p - 1 - ?e)"
      using pow2_add[of "?e - (p - 1)" "p - 1 - ?e"] by (simp add: field_simps pow2_def)
    also have "\<dots> = of_int (m * 2 ^ nat (p - 1 - ?e))" using e by (simp add: pow2_nat)
    finally have q: "of_int m / pow2 (?e - (p - 1)) = of_int (m * 2 ^ nat (p - 1 - ?e))" .
    have "fl_pos p (of_int m) = of_int m / pow2 (?e - (p - 1)) * pow2 (?e - (p - 1))"
      by (simp only: fl_pos_def Let_def q round_even_int)
    then show ?thesis by simp
  qed
  show ?thesis using pos[of n] pos[of "- n"] assms by (auto simp: fl_def)
qed

lemma binary_exponent_unique:
  assumes "0 < x" "pow2 e \<le> x" "x < pow2 (e + 1)"
  shows "binary_exponent x = e"
proof (rule ccontr)
  assume "binary_exponent x \<noteq> e"
  then consider "binary_exponent x + 1 \<le> e" | "e + 1 \<le> binary_exponent x" by linarith
  then show False
    using binary_exponent[OF assms(1)] assms(2,3) by cases (drule pow2_mono, linarith)+
qed

text \<open>Multiplication by a power of two is exact.\<close>

lemma fl_scale: "fl p (x * pow2 k) = fl p x * pow2 k"
proof -
  have pos: "fl_pos p (y * pow2 k) = fl_pos p y * pow2 k" if y: "0 < y" for y
  proof -
    have e: "binary_exponent (y * pow2 k) = binary_exponent y + k"
    proof (rule binary_exponent_unique)
      show "pow2 (binary_exponent y + k) \<le> y * pow2 k"
        unfolding pow2_add using binary_exponent(1)[OF y] by (simp add: mult_right_mono)
      have "pow2 (binary_exponent y + k + 1) = pow2 (binary_exponent y + 1) * pow2 k"
        by (simp flip: pow2_add add: algebra_simps)
      then show "y * pow2 k < pow2 (binary_exponent y + k + 1)" using binary_exponent(2)[OF y] by simp
    qed (use y in simp)
    let ?u = "pow2 (binary_exponent y - (p - 1))"
    have "pow2 (binary_exponent (y * pow2 k) - (p - 1)) = ?u * pow2 k"
      unfolding e by (simp flip: pow2_add add: algebra_simps)
    then show ?thesis by (simp add: fl_pos_def Let_def)
  qed
  show ?thesis using pos[of x] pos[of "- x"]
    by (auto simp: fl_def mult_less_0_iff)
qed

lemma fl_eighths:
  assumes "\<bar>n\<bar> < 2 ^ nat p" "1 \<le> p"
  shows "fl p (of_int n / 8) = of_int n / 8"
  using fl_scale[of p "of_int n" "- 3"] fl_int[OF assms] by (simp add: pow2_def)

lemma trunc_nonneg [simp]: "0 \<le> x \<Longrightarrow> 0 \<le> trunc x"
  by (simp add: trunc_def)

lemma trunc_int [simp]: "trunc (of_int n) = n"
  by (simp add: trunc_def)

lemma trunc_mono: "x \<le> y \<Longrightarrow> trunc x \<le> trunc y"
  by (auto simp: trunc_def floor_mono ceiling_mono)
     (meson ceiling_le_zero order.trans less_imp_le zero_le_floor linorder_not_less)

end
