(* ===== verification/Quic_Rtt.thy ===== *)
theory Quic_Rtt
  imports Go_Float Quic_Protocol
begin

text \<open>
  Round trip time statistics, \<open>src/quic-go/internal/utils/rtt_stats.go\<close>. Durations are integers
  in nanoseconds. The atomic cells of the struct are the fields of a record; the smoothing is done
  in float32 as the source does it, every product and sum rounded.
\<close>

section \<open>Operations\<close>

definition DefaultInitialRTT :: int where
  "DefaultInitialRTT = 100 * Millisecond"

definition TimerGranularity :: int where
  "TimerGranularity = Millisecond"

record RTTStats =
  hasMeasurement :: bool
  minRTT :: int
  latestRTT :: int
  smoothedRTT :: int
  meanDeviation :: int
  maxAckDelay :: int

definition NewRTTStats :: RTTStats where
  "NewRTTStats =
     \<lparr>hasMeasurement = False, minRTT = DefaultInitialRTT, latestRTT = DefaultInitialRTT,
      smoothedRTT = DefaultInitialRTT, meanDeviation = 0, maxAckDelay = 0\<rparr>"

definition PTO :: "bool \<Rightarrow> RTTStats \<Rightarrow> int" where
  "PTO includeMaxAckDelay r =
     (if \<not> hasMeasurement r then 2 * DefaultInitialRTT
      else let pto = smoothedRTT r + max (4 * meanDeviation r) TimerGranularity
           in if includeMaxAckDelay then pto + maxAckDelay r else pto)"

text \<open>The two weighted means of \<open>UpdateRTT\<close>, in microseconds and float32.\<close>

definition mean_deviation :: "int \<Rightarrow> int \<Rightarrow> int \<Rightarrow> int" where
  "mean_deviation dev smoothed sample =
     trunc (float32 (float32 (3 / 4 * float32 (of_int (dev sdiv Microsecond))) +
                     float32 (1 / 4 * float32 (of_int (\<bar>smoothed - sample\<bar> sdiv Microsecond)))))
     * Microsecond"

definition new_smoothed :: "int \<Rightarrow> int \<Rightarrow> int" where
  "new_smoothed smoothed sample =
     trunc (float32 (float32 (float32 (of_int (smoothed sdiv Microsecond)) * (7 / 8)) +
                     float32 (float32 (of_int (sample sdiv Microsecond)) * (1 / 8))))
     * Microsecond"

definition UpdateRTT :: "int \<Rightarrow> int \<Rightarrow> RTTStats \<Rightarrow> RTTStats" where
  "UpdateRTT sendDelta ackDelay r =
     (if sendDelta \<le> 0 then r
      else let m = (if \<not> hasMeasurement r \<or> minRTT r > sendDelta then sendDelta else minRTT r);
               r = r\<lparr>minRTT := m\<rparr>;
               sample = (if sendDelta - m \<ge> ackDelay then sendDelta - ackDelay else sendDelta);
               r = r\<lparr>latestRTT := sample\<rparr>
           in if \<not> hasMeasurement r
              then r\<lparr>hasMeasurement := True, smoothedRTT := sample, meanDeviation := sample sdiv 2\<rparr>
              else r\<lparr>meanDeviation := mean_deviation (meanDeviation r) (smoothedRTT r) sample,
                     smoothedRTT := new_smoothed (smoothedRTT r) sample\<rparr>)"

definition SetMaxAckDelay :: "int \<Rightarrow> RTTStats \<Rightarrow> RTTStats" where
  "SetMaxAckDelay mad r = r\<lparr>maxAckDelay := mad\<rparr>"

definition SetInitialRTT :: "int \<Rightarrow> RTTStats \<Rightarrow> RTTStats" where
  "SetInitialRTT t r = (if hasMeasurement r then r else r\<lparr>smoothedRTT := t, latestRTT := t\<rparr>)"

definition ResetForPathMigration :: "RTTStats \<Rightarrow> RTTStats" where
  "ResetForPathMigration r =
     r\<lparr>hasMeasurement := False, minRTT := DefaultInitialRTT, latestRTT := DefaultInitialRTT,
       smoothedRTT := DefaultInitialRTT, meanDeviation := 0\<rparr>"

section \<open>Statistics of a sequence of samples\<close>

text \<open>The samples of a path, each with the delay the peer has reported, in the order of their arrival.\<close>

definition update_all :: "(int \<times> int) list \<Rightarrow> RTTStats \<Rightarrow> RTTStats" where
  "update_all samples r = fold (\<lambda>(d, a). UpdateRTT d a) samples r"

lemma new_smoothed_exact:
  assumes "0 \<le> s" "0 \<le> x" "s div 1000 < 2 ^ 21" "x div 1000 < 2 ^ 21"
  shows "new_smoothed s x = (7 * (s div 1000) + x div 1000) div 8 * 1000"
proof -
  let ?s = "s div 1000" and ?x = "x div 1000"
  have s: "0 \<le> ?s" "0 \<le> ?x" using assms by (auto simp: pos_imp_zdiv_nonneg_iff)
  have f: "float32 (of_int ?s) = of_int ?s" "float32 (of_int ?x) = of_int ?x"
    using s assms by (auto intro!: fl_int)
  have p: "float32 (of_int ?s * (7 / 8)) = of_int (7 * ?s) / 8"
    using fl_eighths[of "7 * ?s" 24] s assms by (simp add: mult.commute)
  have q: "float32 (of_int ?x * (1 / 8)) = of_int ?x / 8"
    using fl_eighths[of ?x 24] s assms by simp
  have r: "float32 (of_int (7 * ?s) / 8 + of_int ?x / 8) = of_int (7 * ?s + ?x) / 8"
    using fl_eighths[of "7 * ?s + ?x" 24] s assms by (simp add: add_divide_distrib)
  have t: "trunc (of_int (7 * ?s + ?x) / 8) = (7 * ?s + ?x) div 8"
    using s floor_divide_of_int_eq[of "7 * ?s + ?x" 8, where ?'a = rat] by (simp add: trunc_def)
  show ?thesis
    using assms by (simp only: new_smoothed_def Microsecond_def sdiv_pos zero_less_numeral f p q r t)
qed

lemma weighted_mean_between:
  fixes s x lo hi :: int
  assumes "lo \<le> s" "lo \<le> x" "s \<le> hi" "x \<le> hi"
  shows "lo \<le> (7 * s + x) div 8" "(7 * s + x) div 8 \<le> hi"
  using assms by linarith+

text \<open>What holds after at least one sample: \<open>lo\<close> and \<open>hi\<close> are the least and the greatest delta.\<close>

definition rtt_ok :: "int \<Rightarrow> int \<Rightarrow> RTTStats \<Rightarrow> bool" where
  "rtt_ok lo hi r \<longleftrightarrow> hasMeasurement r \<and> minRTT r = lo \<and> 0 < lo \<and> lo \<le> latestRTT r \<and> latestRTT r \<le> hi
     \<and> lo div 1000 \<le> smoothedRTT r div 1000 \<and> smoothedRTT r div 1000 \<le> hi div 1000 \<and> 0 \<le> smoothedRTT r"

lemma UpdateRTT_first:
  assumes "\<not> hasMeasurement r" "0 < d" "0 \<le> a"
  shows "rtt_ok d d (UpdateRTT d a r)"
  using assms by (auto simp: rtt_ok_def UpdateRTT_def Let_def)

lemma UpdateRTT_next:
  assumes ok: "rtt_ok lo hi r" and d: "0 < d" and a: "0 \<le> a" and hi: "max hi d div 1000 < 2 ^ 21"
  shows "rtt_ok (min lo d) (max hi d) (UpdateRTT d a r)"
proof -
  define sample where "sample = (if d - min lo d \<ge> a then d - a else d)"
  define s where "s = smoothedRTT r"
  have s: "lo div 1000 \<le> s div 1000" "s div 1000 \<le> hi div 1000" "0 \<le> s" and lo: "0 < lo"
    using ok by (simp_all add: rtt_ok_def s_def)
  have sample: "min lo d \<le> sample" "sample \<le> max hi d" "0 < sample"
    using lo d a by (auto simp: sample_def)
  have r: "UpdateRTT d a r = r\<lparr>minRTT := min lo d, latestRTT := sample,
      meanDeviation := mean_deviation (meanDeviation r) s sample, smoothedRTT := new_smoothed s sample\<rparr>"
    using ok d unfolding sample_def s_def by (auto simp: rtt_ok_def UpdateRTT_def Let_def min_def)
  have lo': "min lo d div 1000 \<le> s div 1000" "min lo d div 1000 \<le> sample div 1000"
    and hi': "s div 1000 \<le> max hi d div 1000" "sample div 1000 \<le> max hi d div 1000"
    by (rule order_trans[OF zdiv_mono1 s(1)], simp_all) (rule zdiv_mono1[OF sample(1)], simp,
        rule order_trans[OF s(2) zdiv_mono1], simp_all, rule zdiv_mono1[OF sample(2)], simp)
  have e: "new_smoothed s sample = (7 * (s div 1000) + sample div 1000) div 8 * 1000"
    using hi hi' s(3) sample(3) by (intro new_smoothed_exact) linarith+
  define m where "m = (7 * (s div 1000) + sample div 1000) div 8"
  have m: "min lo d div 1000 \<le> m" "m \<le> max hi d div 1000"
    unfolding m_def by (rule weighted_mean_between[OF lo' hi'])+
  have "0 \<le> min lo d div 1000" using lo d by (simp add: pos_imp_zdiv_nonneg_iff)
  then have m0: "0 \<le> m" using m(1) by linarith
  have "smoothedRTT (UpdateRTT d a r) = m * 1000" "minRTT (UpdateRTT d a r) = min lo d"
    "latestRTT (UpdateRTT d a r) = sample" "hasMeasurement (UpdateRTT d a r)"
    using ok by (simp_all add: r e m_def rtt_ok_def)
  then show ?thesis
    unfolding rtt_ok_def using m m0 lo d sample(1,2) by simp
qed

lemma update_all_ok:
  assumes "rtt_ok lo hi r" "\<And>d a. (d, a) \<in> set samples \<Longrightarrow> 0 < d \<and> 0 \<le> a \<and> d div 1000 < 2 ^ 21" "hi div 1000 < 2 ^ 21"
  shows "rtt_ok (Min (insert lo (fst ` set samples))) (Max (insert hi (fst ` set samples))) (update_all samples r)"
  using assms
proof (induction samples arbitrary: lo hi r)
  case Nil
  then show ?case by (simp add: update_all_def)
next
  case (Cons p samples)
  obtain d a where p: "p = (d, a)" by force
  have m: "max hi d div 1000 < 2 ^ 21" using Cons.prems(2)[of d a] Cons.prems(3) by (simp add: p max_def)
  have "rtt_ok (min lo d) (max hi d) (UpdateRTT d a r)"
    using Cons.prems(2)[of d a] by (intro UpdateRTT_next[OF Cons.prems(1)] m) (auto simp: p)
  then have "rtt_ok (Min (insert (min lo d) (fst ` set samples))) (Max (insert (max hi d) (fst ` set samples)))
      (update_all samples (UpdateRTT d a r))"
    using Cons.prems(2) m by (intro Cons.IH) auto
  moreover have "Min (insert (min lo d) (fst ` set samples)) = Min (insert lo (fst ` set (p # samples)))"
    by (cases "samples = []") (simp_all add: p min.assoc)
  moreover have "Max (insert (max hi d) (fst ` set samples)) = Max (insert hi (fst ` set (p # samples)))"
    by (cases "samples = []") (simp_all add: p max.assoc)
  ultimately show ?case by (simp add: p update_all_def)
qed

text \<open>
  (C29) Whatever the round trips a path has had since it was set up or migrated to, the statistics
  describe them: the minimum is the least of the raw samples; the latest value lies between that
  minimum and the largest sample, although the peer's delay has been subtracted; and the smoothed
  value, computed in float32 and cut to microseconds, stays within the least and the greatest
  sample up to the microsecond, as long as the samples are below \<open>2 ^ 21\<close> microseconds (two
  seconds), where the float32 arithmetic is exact. The probe timeout is then at least a
  millisecond above the smoothed value.
\<close>

theorem rtt_describes_samples:
  fixes r :: RTTStats
  assumes "\<not> hasMeasurement r" "samples \<noteq> []"
    and "\<forall>(d, a) \<in> set samples. 0 < d \<and> 0 \<le> a \<and> d div 1000 < 2 ^ 21"
  shows "let r' = update_all samples r; lo = Min (fst ` set samples); hi = Max (fst ` set samples)
         in minRTT r' = lo \<and> lo \<le> latestRTT r' \<and> latestRTT r' \<le> hi
            \<and> lo div 1000 \<le> smoothedRTT r' div 1000 \<and> smoothedRTT r' div 1000 \<le> hi div 1000
            \<and> smoothedRTT r' + Millisecond \<le> PTO False r'"
proof -
  obtain d a rest where s: "samples = (d, a) # rest" using assms(2) by (metis list.exhaust surj_pair)
  have "rtt_ok (Min (insert d (fst ` set rest))) (Max (insert d (fst ` set rest))) (update_all rest (UpdateRTT d a r))"
    using assms(3) by (intro update_all_ok UpdateRTT_first assms(1)) (auto simp: s)
  then have "rtt_ok (Min (fst ` set samples)) (Max (fst ` set samples)) (update_all samples r)"
    by (simp add: s update_all_def)
  then show ?thesis by (simp add: Let_def rtt_ok_def PTO_def TimerGranularity_def)
qed

theorem rtt_describes_samples_witness:
  "let samples = [(30000000, 0), (25000000, 2000000), (41000000, 5000000)];
       r' = update_all samples NewRTTStats; lo = Min (fst ` set samples); hi = Max (fst ` set samples)
   in minRTT r' = lo \<and> lo \<le> latestRTT r' \<and> latestRTT r' \<le> hi
      \<and> lo div 1000 \<le> smoothedRTT r' div 1000 \<and> smoothedRTT r' div 1000 \<le> hi div 1000
      \<and> smoothedRTT r' + Millisecond \<le> PTO False r'"
  unfolding Let_def by (rule rtt_describes_samples[unfolded Let_def]) code_simp+

end
