(* ===== verification/Quic_Flow_Control.thy ===== *)
theory Quic_Flow_Control
  imports Quic_Rtt
begin

text \<open>
  Flow control of a connection and of its streams (\<open>flow_controller_base.go\<close>,
  \<open>flow_controller_connection.go\<close>, \<open>flow_controller_stream.go\<close> of \<open>src/quic-go\<close>).

  The embedded struct \<open>receiveFlowController\<close> is a record which the two controllers extend. A
  stream's pointer to the controller of its connection is a second state argument of the stream's
  operations. The smoothed round trip time is an argument where \<open>rttStats\<close> is read, the time is
  one where the code passes it. Byte counts are integers: windows come from variable-length
  integers and from the configuration, which is cut to the same range, so they stay below
  \<open>2 ^ 62\<close>, and a sum of two of them stays within an int64.

  The second part puts a connection and its streams together as a transition system whose steps
  are the calls of the program, in any order, and proves its invariants. A stream's operation
  touches its own controller, under the stream's lock, and the shared one in a single critical
  section, so that operations of different streams interleave only at that section: every
  interleaving has the effect of one of these sequences.
\<close>

section \<open>The receiving half\<close>

record receiveFlowController =
  bytesRead :: int
  highestReceived :: int
  receiveWindow :: int
  receiveWindowSize :: int
  maxReceiveWindowSize :: int
  allowWindowIncrease :: "(int \<Rightarrow> bool) option"
  epochStartTime :: int
  epochStartOffset :: int

definition addBytesRead :: "int \<Rightarrow> 'a receiveFlowController_scheme \<Rightarrow> 'a receiveFlowController_scheme" where
  "addBytesRead n c = c\<lparr>bytesRead := bytesRead c + n\<rparr>"

definition WindowUpdateThreshold :: rat where
  "WindowUpdateThreshold = 1 / 4"

definition hasWindowUpdate :: "'a receiveFlowController_scheme \<Rightarrow> bool" where
  "hasWindowUpdate c =
     (let bytesRemaining = receiveWindow c - bytesRead c
      in bytesRemaining \<le> trunc (float64 (float64 (of_int (receiveWindowSize c)) * (1 - WindowUpdateThreshold))))"

definition startNewAutoTuningEpoch :: "int \<Rightarrow> 'a receiveFlowController_scheme \<Rightarrow> 'a receiveFlowController_scheme" where
  "startNewAutoTuningEpoch now c = c\<lparr>epochStartTime := now, epochStartOffset := bytesRead c\<rparr>"

definition maybeAdjustWindowSize :: "int \<Rightarrow> int \<Rightarrow> 'a receiveFlowController_scheme \<Rightarrow> 'a receiveFlowController_scheme" where
  "maybeAdjustWindowSize rtt now c =
     (let bytesReadInEpoch = bytesRead c - epochStartOffset c
      in if bytesReadInEpoch \<le> receiveWindowSize c sdiv 2 then c
         else if rtt = 0 then c
         else let fraction = float64 (float64 (of_int bytesReadInEpoch) / float64 (of_int (receiveWindowSize c)));
                  c' = (if now - epochStartTime c < trunc (float64 (float64 (4 * fraction) * float64 (of_int rtt)))
                        then let newSize = min (2 * receiveWindowSize c) (maxReceiveWindowSize c)
                             in if newSize > receiveWindowSize c
                                  \<and> (case allowWindowIncrease c of None \<Rightarrow> True
                                      | Some allow \<Rightarrow> allow (newSize - receiveWindowSize c))
                                then c\<lparr>receiveWindowSize := newSize\<rparr> else c
                        else c)
              in startNewAutoTuningEpoch now c')"

definition getWindowUpdate :: "int \<Rightarrow> int \<Rightarrow> 'a receiveFlowController_scheme \<Rightarrow> int \<times> 'a receiveFlowController_scheme" where
  "getWindowUpdate rtt now c =
     (if \<not> hasWindowUpdate c then (0, c)
      else let c = maybeAdjustWindowSize rtt now c;
               c = c\<lparr>receiveWindow := bytesRead c + receiveWindowSize c\<rparr>
           in (receiveWindow c, c))"

definition checkFlowControlViolation :: "'a receiveFlowController_scheme \<Rightarrow> bool" where
  "checkFlowControlViolation c \<longleftrightarrow> highestReceived c > receiveWindow c"

section \<open>The controller of a connection\<close>

record connectionFlowController = receiveFlowController +
  conn_bytesSent :: int
  conn_sendWindow :: int
  conn_lastBlockedAt :: int

text \<open>The error codes of the transport errors that the controllers return.\<close>

datatype fc_error = FlowControlError | FinalSizeError

definition newConnectionFlowController :: "int \<Rightarrow> int \<Rightarrow> (int \<Rightarrow> bool) \<Rightarrow> connectionFlowController" where
  "newConnectionFlowController rw mw allow =
     \<lparr>bytesRead = 0, highestReceived = 0, receiveWindow = rw, receiveWindowSize = rw,
      maxReceiveWindowSize = mw, allowWindowIncrease = Some allow, epochStartTime = 0,
      epochStartOffset = 0, conn_bytesSent = 0, conn_sendWindow = 0, conn_lastBlockedAt = 0\<rparr>"

definition IncrementHighestReceived :: "int \<Rightarrow> int \<Rightarrow> connectionFlowController \<Rightarrow> fc_error option \<times> connectionFlowController" where
  "IncrementHighestReceived increment now c =
     (let c = (if highestReceived c = 0 then startNewAutoTuningEpoch now c else c);
          c = c\<lparr>highestReceived := highestReceived c + increment\<rparr>
      in (if checkFlowControlViolation c then Some FlowControlError else None, c))"

definition conn_AddBytesRead :: "int \<Rightarrow> connectionFlowController \<Rightarrow> bool \<times> connectionFlowController" where
  "conn_AddBytesRead n c = (let c = addBytesRead n c in (hasWindowUpdate c, c))"

definition conn_TryAddBytesSent :: "int \<Rightarrow> connectionFlowController \<Rightarrow> bool \<times> connectionFlowController" where
  "conn_TryAddBytesSent n c =
     (if conn_bytesSent c > conn_sendWindow c \<or> n > conn_sendWindow c - conn_bytesSent c then (False, c)
      else (True, c\<lparr>conn_bytesSent := conn_bytesSent c + n\<rparr>))"

definition conn_AddBytesSentWithLimiter :: "int \<Rightarrow> (int \<Rightarrow> int) \<Rightarrow> connectionFlowController \<Rightarrow> (int \<times> bool) \<times> connectionFlowController" where
  "conn_AddBytesSentWithLimiter n limiter c =
     (if conn_bytesSent c \<ge> conn_sendWindow c then ((0, False), c)
      else let n = min n (conn_sendWindow c - conn_bytesSent c);
               added = min (max (limiter n) 0) n
           in ((added, added < n), c\<lparr>conn_bytesSent := conn_bytesSent c + added\<rparr>))"

definition conn_UpdateSendWindow :: "int \<Rightarrow> connectionFlowController \<Rightarrow> bool \<times> connectionFlowController" where
  "conn_UpdateSendWindow offset c =
     (if offset > conn_sendWindow c then (True, c\<lparr>conn_sendWindow := offset\<rparr>) else (False, c))"

definition conn_SendWindowSize :: "connectionFlowController \<Rightarrow> int" where
  "conn_SendWindowSize c = conn_sendWindow c - conn_bytesSent c"

definition conn_IsNewlyBlocked :: "connectionFlowController \<Rightarrow> (bool \<times> int) \<times> connectionFlowController" where
  "conn_IsNewlyBlocked c =
     (if conn_bytesSent c < conn_sendWindow c \<or> conn_sendWindow c = conn_lastBlockedAt c then ((False, 0), c)
      else ((True, conn_sendWindow c), c\<lparr>conn_lastBlockedAt := conn_sendWindow c\<rparr>))"

definition conn_GetWindowUpdate :: "int \<Rightarrow> int \<Rightarrow> connectionFlowController \<Rightarrow> int \<times> connectionFlowController" where
  "conn_GetWindowUpdate rtt now c = getWindowUpdate rtt now c"

text \<open>The callback is called without a check; calling a nil function panics.\<close>

definition EnsureMinimumWindowSize :: "int \<Rightarrow> int \<Rightarrow> connectionFlowController \<Rightarrow> connectionFlowController outcome" where
  "EnsureMinimumWindowSize inc now c =
     (if inc \<le> receiveWindowSize c then Done c
      else let newSize = min inc (maxReceiveWindowSize c); delta = newSize - receiveWindowSize c
           in if delta > 0
              then (case allowWindowIncrease c of None \<Rightarrow> Panic
                    | Some allow \<Rightarrow> Done (startNewAutoTuningEpoch now
                        (if allow delta then c\<lparr>receiveWindowSize := newSize\<rparr> else c)))
              else Done (startNewAutoTuningEpoch now c))"

definition conn_Reset :: "connectionFlowController \<Rightarrow> connectionFlowController option" where
  "conn_Reset c =
     (if bytesRead c > 0 \<or> highestReceived c > 0 \<or> epochStartTime c \<noteq> 0 then None
      else Some (c\<lparr>conn_bytesSent := 0, conn_lastBlockedAt := 0, conn_sendWindow := 0\<rparr>))"

section \<open>The controller of a stream\<close>

record streamFlowController = receiveFlowController +
  str_bytesSent :: int
  str_sendWindow :: int
  str_lastBlockedAt :: int
  streamID :: int
  receivedFinalOffset :: bool

definition newStreamFlowController :: "int \<Rightarrow> int \<Rightarrow> int \<Rightarrow> int \<Rightarrow> streamFlowController" where
  "newStreamFlowController sid rw mw initialSendWindow =
     \<lparr>bytesRead = 0, highestReceived = 0, receiveWindow = rw, receiveWindowSize = rw,
      maxReceiveWindowSize = mw, allowWindowIncrease = None, epochStartTime = 0,
      epochStartOffset = 0, str_bytesSent = 0, str_sendWindow = initialSendWindow,
      str_lastBlockedAt = 0, streamID = sid, receivedFinalOffset = False\<rparr>"

type_synonym stream_conn = "streamFlowController \<times> connectionFlowController"

definition UpdateHighestReceived :: "int \<Rightarrow> bool \<Rightarrow> int \<Rightarrow> streamFlowController \<Rightarrow> connectionFlowController \<Rightarrow> fc_error option \<times> stream_conn" where
  "UpdateHighestReceived offset final now s c =
     (if receivedFinalOffset s \<and> final \<and> offset \<noteq> highestReceived s then (Some FinalSizeError, s, c)
      else if receivedFinalOffset s \<and> offset > highestReceived s then (Some FinalSizeError, s, c)
      else let s = (if final then s\<lparr>receivedFinalOffset := True\<rparr> else s)
           in if offset = highestReceived s then (None, s, c)
              else if offset < highestReceived s then (if final then Some FinalSizeError else None, s, c)
              else let s = (if highestReceived s = 0 then startNewAutoTuningEpoch now s else s);
                       increment = offset - highestReceived s;
                       s = s\<lparr>highestReceived := offset\<rparr>
                   in if checkFlowControlViolation s then (Some FlowControlError, s, c)
                      else case IncrementHighestReceived increment now c of (e, c) \<Rightarrow> (e, s, c))"

definition shouldQueueWindowUpdate :: "streamFlowController \<Rightarrow> bool" where
  "shouldQueueWindowUpdate s \<longleftrightarrow> \<not> receivedFinalOffset s \<and> hasWindowUpdate s"

definition str_AddBytesRead :: "int \<Rightarrow> streamFlowController \<Rightarrow> connectionFlowController \<Rightarrow> (bool \<times> bool) \<times> stream_conn" where
  "str_AddBytesRead n s c =
     (let s = addBytesRead n s
      in case conn_AddBytesRead n c of (hasConn, c) \<Rightarrow> ((shouldQueueWindowUpdate s, hasConn), s, c))"

definition Abandon :: "streamFlowController \<Rightarrow> connectionFlowController \<Rightarrow> stream_conn" where
  "Abandon s c =
     (let unread = highestReceived s - bytesRead s; s = s\<lparr>bytesRead := highestReceived s\<rparr>
      in if unread > 0 then (s, snd (conn_AddBytesRead unread c)) else (s, c))"

definition str_UpdateSendWindow :: "int \<Rightarrow> streamFlowController \<Rightarrow> bool \<times> streamFlowController" where
  "str_UpdateSendWindow offset s =
     (if offset > str_sendWindow s then (True, s\<lparr>str_sendWindow := offset\<rparr>) else (False, s))"

definition str_TryAddBytesSent :: "int \<Rightarrow> streamFlowController \<Rightarrow> connectionFlowController \<Rightarrow> bool \<times> stream_conn" where
  "str_TryAddBytesSent n s c =
     (if str_bytesSent s > str_sendWindow s \<or> n > str_sendWindow s - str_bytesSent s then (False, s, c)
      else case conn_TryAddBytesSent n c of
             (False, c) \<Rightarrow> (False, s, c)
           | (True, c) \<Rightarrow> (True, s\<lparr>str_bytesSent := str_bytesSent s + n\<rparr>, c))"

definition str_AddBytesSentWithLimiter :: "int \<Rightarrow> (int \<Rightarrow> int) \<Rightarrow> streamFlowController \<Rightarrow> connectionFlowController \<Rightarrow> (int \<times> bool) \<times> stream_conn" where
  "str_AddBytesSentWithLimiter n limiter s c =
     (if str_bytesSent s \<ge> str_sendWindow s then ((0, False), s, c)
      else let n = min n (str_sendWindow s - str_bytesSent s)
           in case conn_AddBytesSentWithLimiter n limiter c of
                ((added, limited), c) \<Rightarrow>
                  ((added, limited), s\<lparr>str_bytesSent := str_bytesSent s + added\<rparr>, c))"

definition str_SendWindowSize :: "streamFlowController \<Rightarrow> connectionFlowController \<Rightarrow> int" where
  "str_SendWindowSize s c = min (str_sendWindow s - str_bytesSent s) (conn_SendWindowSize c)"

definition str_isNewlyBlocked :: "streamFlowController \<Rightarrow> (bool \<times> int) \<times> streamFlowController" where
  "str_isNewlyBlocked s =
     (if str_bytesSent s < str_sendWindow s \<or> str_sendWindow s = str_lastBlockedAt s then ((False, 0), s)
      else ((True, str_sendWindow s), s\<lparr>str_lastBlockedAt := str_sendWindow s\<rparr>))"

definition str_IsNewlyBlocked :: "streamFlowController \<Rightarrow> bool \<times> streamFlowController" where
  "str_IsNewlyBlocked s = (case str_isNewlyBlocked s of ((blocked, _), s) \<Rightarrow> (blocked, s))"

definition ConnectionFlowControlMultiplier :: rat where
  "ConnectionFlowControlMultiplier = 3 / 2"

definition str_GetWindowUpdate :: "int \<Rightarrow> int \<Rightarrow> streamFlowController \<Rightarrow> connectionFlowController \<Rightarrow> (int \<times> stream_conn) outcome" where
  "str_GetWindowUpdate rtt now s c =
     (if receivedFinalOffset s then Done (0, s, c)
      else let oldWindowSize = receiveWindowSize s
           in case getWindowUpdate rtt now s of
                (offset, s) \<Rightarrow>
                  if receiveWindowSize s > oldWindowSize
                  then bind_outcome
                         (EnsureMinimumWindowSize
                            (trunc (float64 (float64 (of_int (receiveWindowSize s)) * ConnectionFlowControlMultiplier))) now c)
                         (\<lambda>c. Done (offset, s, c))
                  else Done (offset, s, c))"

section \<open>A connection with its streams\<close>

text \<open>The windows of the configuration.\<close>

record fc_config =
  InitialStreamReceiveWindow :: int
  MaxStreamReceiveWindow :: int
  InitialConnectionReceiveWindow :: int
  MaxConnectionReceiveWindow :: int

text \<open>
  A stream is never removed from the list: one that is done just takes no more steps. \<open>closed\<close>
  is set when an operation has returned a transport error, upon which the connection is closed;
  application goroutines may still call operations of the sending half then.
\<close>

record fc_state =
  cfc :: connectionFlowController
  sfcs :: "streamFlowController list"
  closed :: bool

definition fc_init :: "fc_config \<Rightarrow> (int \<Rightarrow> bool) \<Rightarrow> fc_state" where
  "fc_init cfg allow =
     \<lparr>cfc = newConnectionFlowController (InitialConnectionReceiveWindow cfg) (MaxConnectionReceiveWindow cfg) allow,
      sfcs = [], closed = False\<rparr>"

definition put :: "nat \<Rightarrow> stream_conn \<Rightarrow> fc_state \<Rightarrow> fc_state" where
  "put i sc \<sigma> = \<sigma>\<lparr>sfcs := (sfcs \<sigma>)[i := fst sc], cfc := snd sc\<rparr>"

text \<open>
  The steps. Data is read only after it was received, offsets and sizes are not negative. The
  callback \<open>allowWindowIncrease\<close> of the application may answer differently over time
  (\<open>callback\<close>). When 0-RTT is rejected the streams are dropped (\<open>reset\<close>).
\<close>

inductive fc_step :: "fc_config \<Rightarrow> fc_state \<Rightarrow> fc_state \<Rightarrow> bool" for cfg where
  open_stream: "0 \<le> sw \<Longrightarrow>
    fc_step cfg \<sigma> (\<sigma>\<lparr>sfcs := sfcs \<sigma> @ [newStreamFlowController sid (InitialStreamReceiveWindow cfg) (MaxStreamReceiveWindow cfg) sw]\<rparr>)"
| receive: "i < length (sfcs \<sigma>) \<Longrightarrow> \<not> closed \<sigma> \<Longrightarrow> 0 \<le> offset \<Longrightarrow>
    UpdateHighestReceived offset final now (sfcs \<sigma> ! i) (cfc \<sigma>) = (e, sc) \<Longrightarrow>
    fc_step cfg \<sigma> (put i sc (\<sigma>\<lparr>closed := e \<noteq> None\<rparr>))"
| read: "i < length (sfcs \<sigma>) \<Longrightarrow> 0 \<le> n \<Longrightarrow> n \<le> highestReceived (sfcs \<sigma> ! i) - bytesRead (sfcs \<sigma> ! i) \<Longrightarrow>
    str_AddBytesRead n (sfcs \<sigma> ! i) (cfc \<sigma>) = (b, sc) \<Longrightarrow> fc_step cfg \<sigma> (put i sc \<sigma>)"
| abandon: "i < length (sfcs \<sigma>) \<Longrightarrow> Abandon (sfcs \<sigma> ! i) (cfc \<sigma>) = sc \<Longrightarrow> fc_step cfg \<sigma> (put i sc \<sigma>)"
| send: "i < length (sfcs \<sigma>) \<Longrightarrow> 0 \<le> n \<Longrightarrow>
    str_TryAddBytesSent n (sfcs \<sigma> ! i) (cfc \<sigma>) = (ok, sc) \<Longrightarrow> fc_step cfg \<sigma> (put i sc \<sigma>)"
| send_limited: "i < length (sfcs \<sigma>) \<Longrightarrow> 0 \<le> n \<Longrightarrow>
    str_AddBytesSentWithLimiter n limiter (sfcs \<sigma> ! i) (cfc \<sigma>) = (r, sc) \<Longrightarrow> fc_step cfg \<sigma> (put i sc \<sigma>)"
| stream_credit: "i < length (sfcs \<sigma>) \<Longrightarrow> str_UpdateSendWindow offset (sfcs \<sigma> ! i) = (b, s) \<Longrightarrow>
    fc_step cfg \<sigma> (put i (s, cfc \<sigma>) \<sigma>)"
| stream_blocked: "i < length (sfcs \<sigma>) \<Longrightarrow> str_isNewlyBlocked (sfcs \<sigma> ! i) = (b, s) \<Longrightarrow>
    fc_step cfg \<sigma> (put i (s, cfc \<sigma>) \<sigma>)"
| stream_update: "i < length (sfcs \<sigma>) \<Longrightarrow>
    str_GetWindowUpdate rtt now (sfcs \<sigma> ! i) (cfc \<sigma>) = Done (off, sc) \<Longrightarrow> fc_step cfg \<sigma> (put i sc \<sigma>)"
| conn_credit: "conn_UpdateSendWindow offset (cfc \<sigma>) = (b, c) \<Longrightarrow> fc_step cfg \<sigma> (\<sigma>\<lparr>cfc := c\<rparr>)"
| conn_blocked: "conn_IsNewlyBlocked (cfc \<sigma>) = (b, c) \<Longrightarrow> fc_step cfg \<sigma> (\<sigma>\<lparr>cfc := c\<rparr>)"
| conn_update: "conn_GetWindowUpdate rtt now (cfc \<sigma>) = (off, c) \<Longrightarrow> fc_step cfg \<sigma> (\<sigma>\<lparr>cfc := c\<rparr>)"
| callback: "fc_step cfg \<sigma> (\<sigma>\<lparr>cfc := (cfc \<sigma>)\<lparr>allowWindowIncrease := Some g\<rparr>\<rparr>)"
| reset: "conn_Reset (cfc \<sigma>) = Some c \<Longrightarrow> fc_step cfg \<sigma> (\<sigma>\<lparr>cfc := c, sfcs := []\<rparr>)"

inductive fc_reachable :: "fc_config \<Rightarrow> fc_state \<Rightarrow> bool" for cfg where
  init: "fc_reachable cfg (fc_init cfg allow)"
| step: "fc_reachable cfg \<sigma> \<Longrightarrow> fc_step cfg \<sigma> \<tau> \<Longrightarrow> fc_reachable cfg \<tau>"

section \<open>Invariants\<close>

text \<open>
  The receiving half of a controller whose window never gets larger than \<open>W\<close>: the peer has not
  used more than was advertised, and what was advertised is within a window of what was read.
\<close>

definition recv_ok :: "int \<Rightarrow> 'a receiveFlowController_scheme \<Rightarrow> bool" where
  "recv_ok W x \<longleftrightarrow> 0 \<le> bytesRead x \<and> highestReceived x \<le> receiveWindow x
     \<and> receiveWindow x \<le> bytesRead x + receiveWindowSize x \<and> 0 < receiveWindowSize x
     \<and> receiveWindowSize x \<le> W \<and> maxReceiveWindowSize x \<le> W"

definition str_recv_ok :: "int \<Rightarrow> streamFlowController \<Rightarrow> bool" where
  "str_recv_ok W s \<longleftrightarrow> recv_ok W s \<and> bytesRead s \<le> highestReceived s"

definition str_send_ok :: "streamFlowController \<Rightarrow> bool" where
  "str_send_ok s \<longleftrightarrow> 0 \<le> str_bytesSent s \<and> str_bytesSent s \<le> str_sendWindow s"

definition conn_send_ok :: "connectionFlowController \<Rightarrow> bool" where
  "conn_send_ok c \<longleftrightarrow> 0 \<le> conn_bytesSent c \<and> conn_bytesSent c \<le> conn_sendWindow c \<and> allowWindowIncrease c \<noteq> None"

abbreviation stream_limit :: "fc_config \<Rightarrow> int" where
  "stream_limit cfg \<equiv> max (InitialStreamReceiveWindow cfg) (MaxStreamReceiveWindow cfg)"

abbreviation conn_limit :: "fc_config \<Rightarrow> int" where
  "conn_limit cfg \<equiv> max (InitialConnectionReceiveWindow cfg) (MaxConnectionReceiveWindow cfg)"

definition send_inv :: "fc_state \<Rightarrow> bool" where
  "send_inv \<sigma> \<longleftrightarrow> conn_send_ok (cfc \<sigma>) \<and> (\<forall>s \<in> set (sfcs \<sigma>). str_send_ok s)
     \<and> conn_bytesSent (cfc \<sigma>) = (\<Sum>s\<leftarrow>sfcs \<sigma>. str_bytesSent s)"

definition recv_inv :: "fc_config \<Rightarrow> fc_state \<Rightarrow> bool" where
  "recv_inv cfg \<sigma> \<longleftrightarrow> recv_ok (conn_limit cfg) (cfc \<sigma>) \<and> (\<forall>s \<in> set (sfcs \<sigma>). str_recv_ok (stream_limit cfg) s)
     \<and> highestReceived (cfc \<sigma>) = (\<Sum>s\<leftarrow>sfcs \<sigma>. highestReceived s)
     \<and> bytesRead (cfc \<sigma>) = (\<Sum>s\<leftarrow>sfcs \<sigma>. bytesRead s)"

lemma sum_update:
  fixes f :: "'a \<Rightarrow> int"
  shows "i < length xs \<Longrightarrow> (\<Sum>x\<leftarrow>xs[i := y]. f x) = (\<Sum>x\<leftarrow>xs. f x) - f (xs ! i) + f y"
  by (induction xs arbitrary: i) (auto split: nat.split)

text \<open>
  The contract of an operation of a stream: within the credit and within the windows on both
  levels before means so afterwards, and the connection accounts for the same bytes as the stream.
  \<open>op p s c = (e, s', c')\<close> says that the call with arguments \<open>p\<close> takes the stream and the
  connection from \<open>(s, c)\<close> to \<open>(s', c')\<close>, with a transport error if \<open>e\<close>.
\<close>

locale stream_operation =
  fixes op :: "'p \<Rightarrow> streamFlowController \<Rightarrow> connectionFlowController \<Rightarrow> (bool \<times> stream_conn) outcome"
    and pre :: "'p \<Rightarrow> streamFlowController \<Rightarrow> bool"
  assumes returns: "conn_send_ok c \<Longrightarrow> op p s c \<noteq> Panic"
    and sends: "pre p s \<Longrightarrow> op p s c = Done (e, s', c') \<Longrightarrow> str_send_ok s \<Longrightarrow> conn_send_ok c \<Longrightarrow>
      str_send_ok s' \<and> conn_send_ok c' \<and> conn_bytesSent c' - conn_bytesSent c = str_bytesSent s' - str_bytesSent s"
    and receives: "pre p s \<Longrightarrow> op p s c = Done (False, s', c') \<Longrightarrow> str_recv_ok W s \<Longrightarrow> recv_ok W' c \<Longrightarrow>
      str_recv_ok W s' \<and> recv_ok W' c' \<and> receiveWindow s \<le> receiveWindow s' \<and> receiveWindow c \<le> receiveWindow c'
      \<and> highestReceived c' - highestReceived c = highestReceived s' - highestReceived s
      \<and> bytesRead c' - bytesRead c = bytesRead s' - bytesRead s"
begin

lemma send_inv_put:
  assumes "send_inv \<sigma>" "i < length (sfcs \<sigma>)" "pre p (sfcs \<sigma> ! i)" "op p (sfcs \<sigma> ! i) (cfc \<sigma>) = Done (e, sc)"
  shows "send_inv (put i sc (\<sigma>\<lparr>closed := b\<rparr>))" "send_inv (put i sc \<sigma>)"
proof -
  obtain s' c' where sc: "sc = (s', c')" by force
  have "str_send_ok (sfcs \<sigma> ! i)" "conn_send_ok (cfc \<sigma>)" using assms(1,2) by (auto simp: send_inv_def)
  note * = sends[OF assms(3) assms(4)[unfolded sc] this]
  then show "send_inv (put i sc (\<sigma>\<lparr>closed := b\<rparr>))" "send_inv (put i sc \<sigma>)"
    using assms(1,2) by (auto simp: send_inv_def put_def sc sum_update dest!: set_update_subset_insert[THEN subsetD])
qed

lemma recv_inv_put:
  assumes "recv_inv cfg \<sigma>" "i < length (sfcs \<sigma>)" "pre p (sfcs \<sigma> ! i)" "op p (sfcs \<sigma> ! i) (cfc \<sigma>) = Done (False, sc)"
  shows "recv_inv cfg (put i sc (\<sigma>\<lparr>closed := b\<rparr>))" "recv_inv cfg (put i sc \<sigma>)"
    "receiveWindow (cfc \<sigma>) \<le> receiveWindow (snd sc)" "receiveWindow (sfcs \<sigma> ! i) \<le> receiveWindow (fst sc)"
proof -
  obtain s' c' where sc: "sc = (s', c')" by force
  have "str_recv_ok (stream_limit cfg) (sfcs \<sigma> ! i)" "recv_ok (conn_limit cfg) (cfc \<sigma>)"
    using assms(1,2) by (auto simp: recv_inv_def)
  note * = receives[OF assms(3) assms(4)[unfolded sc] this]
  then show "recv_inv cfg (put i sc (\<sigma>\<lparr>closed := b\<rparr>))" "recv_inv cfg (put i sc \<sigma>)"
    using assms(1,2) by (auto simp: recv_inv_def put_def sc sum_update dest!: set_update_subset_insert[THEN subsetD])
  show "receiveWindow (cfc \<sigma>) \<le> receiveWindow (snd sc)" "receiveWindow (sfcs \<sigma> ! i) \<le> receiveWindow (fst sc)"
    using * by (simp_all add: sc)
qed

end

text \<open>The receiving half of both controllers.\<close>

lemma maybeAdjustWindowSize_form:
  obtains n t b where "maybeAdjustWindowSize rtt now x = x\<lparr>receiveWindowSize := n, epochStartTime := t, epochStartOffset := b\<rparr>"
    "receiveWindowSize x \<le> n" "n \<le> max (receiveWindowSize x) (maxReceiveWindowSize x)"
proof -
  have "\<exists>n t b. maybeAdjustWindowSize rtt now x = x\<lparr>receiveWindowSize := n, epochStartTime := t, epochStartOffset := b\<rparr>
      \<and> receiveWindowSize x \<le> n \<and> n \<le> max (receiveWindowSize x) (maxReceiveWindowSize x)" (is "\<exists>n t b. ?P n t b")
  proof -
    have "?P (receiveWindowSize (maybeAdjustWindowSize rtt now x)) (epochStartTime (maybeAdjustWindowSize rtt now x))
        (epochStartOffset (maybeAdjustWindowSize rtt now x))"
      by (simp add: maybeAdjustWindowSize_def startNewAutoTuningEpoch_def Let_def)
    then show ?thesis by blast
  qed
  then show thesis using that by blast
qed

lemma getWindowUpdate_form:
  assumes "getWindowUpdate rtt now x = (off, x')"
  obtains n t b w where "x' = x\<lparr>receiveWindowSize := n, epochStartTime := t, epochStartOffset := b, receiveWindow := w\<rparr>"
    "receiveWindowSize x \<le> n" "n \<le> max (receiveWindowSize x) (maxReceiveWindowSize x)"
    "w = receiveWindow x \<and> off = 0 \<and> \<not> hasWindowUpdate x \<or> w = bytesRead x + n \<and> off = w \<and> hasWindowUpdate x"
proof (cases "hasWindowUpdate x")
  case True
  then show thesis using assms
    by (cases rule: maybeAdjustWindowSize_form[of rtt now x]) (auto simp: getWindowUpdate_def Let_def intro: that)
next
  case False
  then show thesis using assms
    by (intro that[where n = "receiveWindowSize x" and t = "epochStartTime x" and b = "epochStartOffset x" and w = "receiveWindow x"])
       (auto simp: getWindowUpdate_def)
qed

lemma getWindowUpdate_ok:
  assumes "getWindowUpdate rtt now x = (off, x')" "recv_ok W x"
  shows "recv_ok W x' \<and> receiveWindow x \<le> receiveWindow x' \<and> highestReceived x' = highestReceived x
    \<and> bytesRead x' = bytesRead x"
  using assms(2) by (cases rule: getWindowUpdate_form[OF assms(1)]) (auto simp: recv_ok_def)

lemma EnsureMinimumWindowSize_form:
  assumes "EnsureMinimumWindowSize inc now c = Done c'"
  obtains n t b where "c' = c\<lparr>receiveWindowSize := n, epochStartTime := t, epochStartOffset := b\<rparr>"
    "receiveWindowSize c \<le> n" "n \<le> max (receiveWindowSize c) (maxReceiveWindowSize c)"
proof -
  have "c' = c\<lparr>receiveWindowSize := receiveWindowSize c', epochStartTime := epochStartTime c', epochStartOffset := epochStartOffset c'\<rparr>
    \<and> receiveWindowSize c \<le> receiveWindowSize c' \<and> receiveWindowSize c' \<le> max (receiveWindowSize c) (maxReceiveWindowSize c)"
    using assms
    by (auto simp: EnsureMinimumWindowSize_def startNewAutoTuningEpoch_def Let_def split: if_splits option.splits)
  then show thesis using that by blast
qed

lemma str_GetWindowUpdate_cases:
  assumes "str_GetWindowUpdate rtt now s c = Done (off, s', c')"
  obtains "receivedFinalOffset s" "off = 0" "s' = s" "c' = c"
  | "\<not> receivedFinalOffset s" "getWindowUpdate rtt now s = (off, s')" "c' = c"
  | inc where "\<not> receivedFinalOffset s" "getWindowUpdate rtt now s = (off, s')" "EnsureMinimumWindowSize inc now c = Done c'"
proof (cases "receivedFinalOffset s")
  case True
  then have "off = 0 \<and> s' = s \<and> c' = c" using assms by (simp add: str_GetWindowUpdate_def)
  then show thesis using that(1) True by blast
next
  case False
  obtain off1 s1 where g: "getWindowUpdate rtt now s = (off1, s1)" by force
  define inc where "inc = trunc (float64 (float64 (of_int (receiveWindowSize s1)) * ConnectionFlowControlMultiplier))"
  have "str_GetWindowUpdate rtt now s c =
      (if receiveWindowSize s1 > receiveWindowSize s
       then bind_outcome (EnsureMinimumWindowSize inc now c) (\<lambda>c. Done (off1, s1, c)) else Done (off1, s1, c))"
    using False by (simp add: str_GetWindowUpdate_def g inc_def)
  then consider "getWindowUpdate rtt now s = (off, s')" "c' = c"
    | "getWindowUpdate rtt now s = (off, s')" "EnsureMinimumWindowSize inc now c = Done c'"
    using assms by (cases "EnsureMinimumWindowSize inc now c") (simp_all add: g split: if_splits)
  then show thesis using that(2,3) False by cases blast+
qed

subsection \<open>The operations of a stream keep the contract\<close>

lemmas fc_ok_defs = str_recv_ok_def recv_ok_def str_send_ok_def conn_send_ok_def

interpretation receive: stream_operation
  "\<lambda>(offset, final, now) s c. Done (case UpdateHighestReceived offset final now s c of (e, sc) \<Rightarrow> (e \<noteq> None, sc))"
  "\<lambda>(offset, final, now) s. 0 \<le> offset"
  by unfold_locales
     (auto simp: UpdateHighestReceived_def IncrementHighestReceived_def Let_def checkFlowControlViolation_def
        startNewAutoTuningEpoch_def fc_ok_defs split: if_splits)

interpretation read: stream_operation
  "\<lambda>n s c. Done (False, snd (str_AddBytesRead n s c))"
  "\<lambda>n s. 0 \<le> n \<and> n \<le> highestReceived s - bytesRead s"
  by unfold_locales
     (auto simp: str_AddBytesRead_def conn_AddBytesRead_def addBytesRead_def Let_def fc_ok_defs)

interpretation abandon: stream_operation
  "\<lambda>_ s c. Done (False, Abandon s c)" "\<lambda>_ _. True"
  by unfold_locales
     (auto simp: Abandon_def conn_AddBytesRead_def addBytesRead_def Let_def fc_ok_defs split: if_splits)

interpretation send: stream_operation
  "\<lambda>n s c. Done (False, snd (str_TryAddBytesSent n s c))" "\<lambda>n _. 0 \<le> n"
  by unfold_locales
     (auto simp: str_TryAddBytesSent_def conn_TryAddBytesSent_def Let_def fc_ok_defs split: if_splits)

lemma conn_AddBytesSentWithLimiter_form:
  assumes "0 \<le> n" "conn_AddBytesSentWithLimiter n limiter c = ((added, l), c')"
  shows "0 \<le> added" "added \<le> n" "c' = c\<lparr>conn_bytesSent := conn_bytesSent c + added\<rparr>"
    "conn_bytesSent c \<le> conn_sendWindow c \<Longrightarrow> conn_bytesSent c + added \<le> conn_sendWindow c"
proof -
  have "0 \<le> added \<and> added \<le> n \<and> c' = c\<lparr>conn_bytesSent := conn_bytesSent c + added\<rparr>
      \<and> (conn_bytesSent c \<le> conn_sendWindow c \<longrightarrow> conn_bytesSent c + added \<le> conn_sendWindow c)"
  proof (cases "conn_sendWindow c \<le> conn_bytesSent c")
    case True
    then show ?thesis using assms by (auto simp: conn_AddBytesSentWithLimiter_def)
  next
    case False
    define m where "m = min n (conn_sendWindow c - conn_bytesSent c)"
    have m: "0 \<le> m" "m \<le> n" "conn_bytesSent c + m \<le> conn_sendWindow c" using False assms(1) by (auto simp: m_def)
    have "added = min (max (limiter m) 0) m" "c' = c\<lparr>conn_bytesSent := conn_bytesSent c + added\<rparr>"
      using assms(2) False by (auto simp: conn_AddBytesSentWithLimiter_def Let_def m_def[symmetric])
    then show ?thesis using m by auto
  qed
  then show "0 \<le> added" "added \<le> n" "c' = c\<lparr>conn_bytesSent := conn_bytesSent c + added\<rparr>"
    "conn_bytesSent c \<le> conn_sendWindow c \<Longrightarrow> conn_bytesSent c + added \<le> conn_sendWindow c" by blast+
qed

lemma str_AddBytesSentWithLimiter_form:
  assumes "0 \<le> n" "snd (str_AddBytesSentWithLimiter n limiter s c) = (s', c')"
  obtains added where "0 \<le> added" "s' = s\<lparr>str_bytesSent := str_bytesSent s + added\<rparr>"
    "c' = c\<lparr>conn_bytesSent := conn_bytesSent c + added\<rparr>"
    "str_bytesSent s \<le> str_sendWindow s \<Longrightarrow> str_bytesSent s + added \<le> str_sendWindow s"
    "conn_bytesSent c \<le> conn_sendWindow c \<Longrightarrow> conn_bytesSent c + added \<le> conn_sendWindow c"
proof (cases "str_sendWindow s \<le> str_bytesSent s")
  case True
  then show thesis using assms by (intro that[of 0]) (auto simp: str_AddBytesSentWithLimiter_def)
next
  case False
  define m where "m = min n (str_sendWindow s - str_bytesSent s)"
  have m: "0 \<le> m" "str_bytesSent s + m \<le> str_sendWindow s" using False assms(1) by (auto simp: m_def)
  obtain added l c1 where l: "conn_AddBytesSentWithLimiter m limiter c = ((added, l), c1)" by (metis surj_pair)
  note f = conn_AddBytesSentWithLimiter_form[OF m(1) l]
  have "s' = s\<lparr>str_bytesSent := str_bytesSent s + added\<rparr>" "c' = c1"
    using assms(2) False by (auto simp: str_AddBytesSentWithLimiter_def Let_def m_def[symmetric] l)
  then show thesis using f m by (intro that[of added]) auto
qed

interpretation send_limited: stream_operation
  "\<lambda>(n, limiter) s c. Done (False, snd (str_AddBytesSentWithLimiter n limiter s c))" "\<lambda>(n, _) _. 0 \<le> n"
proof (unfold_locales, goal_cases)
  case (2 p s c e s' c')
  then show ?case
    by (cases p) (auto simp: fc_ok_defs elim!: str_AddBytesSentWithLimiter_form[rotated])
next
  case (3 p s c s' c' W W')
  then show ?case
    by (cases p) (auto simp: fc_ok_defs elim!: str_AddBytesSentWithLimiter_form[rotated])
qed auto

interpretation stream_credit: stream_operation
  "\<lambda>offset s c. Done (False, snd (str_UpdateSendWindow offset s), c)" "\<lambda>_ _. True"
  by unfold_locales (auto simp: str_UpdateSendWindow_def fc_ok_defs split: if_splits)

interpretation stream_blocked: stream_operation
  "\<lambda>_ s c. Done (False, snd (str_isNewlyBlocked s), c)" "\<lambda>_ _. True"
  by unfold_locales (auto simp: str_isNewlyBlocked_def fc_ok_defs split: if_splits)

interpretation stream_update: stream_operation
  "\<lambda>(rtt, now) s c. bind_outcome (str_GetWindowUpdate rtt now s c) (\<lambda>(_, sc). Done (False, sc))" "\<lambda>_ _. True"
proof (unfold_locales, goal_cases)
  case (1 c p s)
  then show ?case
    by (auto simp: str_GetWindowUpdate_def EnsureMinimumWindowSize_def conn_send_ok_def Let_def split: prod.splits)
next
  case (2 p s c e s' c')
  then obtain rtt now off where "str_GetWindowUpdate rtt now s c = Done (off, s', c')"
    by (cases p; cases "str_GetWindowUpdate (fst p) (snd p) s c") auto
  then show ?case using 2(3,4)
    by (cases rule: str_GetWindowUpdate_cases)
       (auto simp: fc_ok_defs elim!: getWindowUpdate_form EnsureMinimumWindowSize_form)
next
  case (3 p s c s' c' W W')
  then obtain rtt now off where u: "str_GetWindowUpdate rtt now s c = Done (off, s', c')"
    by (cases p; cases "str_GetWindowUpdate (fst p) (snd p) s c") auto
  have e: "recv_ok W' c1 \<and> receiveWindow c1 = receiveWindow c \<and> highestReceived c1 = highestReceived c \<and> bytesRead c1 = bytesRead c"
    if "EnsureMinimumWindowSize inc now c = Done c1" for inc c1
    using 3(4) by (cases rule: EnsureMinimumWindowSize_form[OF that]) (auto simp: recv_ok_def)
  show ?case using u
    by (cases rule: str_GetWindowUpdate_cases) (use 3(3,4) in \<open>auto simp: str_recv_ok_def dest!: getWindowUpdate_ok e\<close>)
qed

subsection \<open>The invariants of the transition system\<close>

lemma conn_UpdateSendWindow_ok:
  "conn_UpdateSendWindow offset c = (b, c') \<Longrightarrow> c' = c\<lparr>conn_sendWindow := max offset (conn_sendWindow c)\<rparr>"
  by (auto simp: conn_UpdateSendWindow_def max_def split: if_splits)

lemma conn_IsNewlyBlocked_ok:
  "conn_IsNewlyBlocked c = (b, c') \<Longrightarrow> c' = c\<lparr>conn_lastBlockedAt := conn_lastBlockedAt c'\<rparr>"
  by (auto simp: conn_IsNewlyBlocked_def split: if_splits)

lemma conn_Reset_ok:
  assumes "conn_Reset c = Some c'"
  shows "c' = c\<lparr>conn_bytesSent := 0, conn_lastBlockedAt := 0, conn_sendWindow := 0\<rparr>" "\<not> bytesRead c > 0" "\<not> highestReceived c > 0"
  using assms by (auto simp: conn_Reset_def split: if_splits)

lemma fc_step_send_inv: "fc_step cfg \<sigma> \<tau> \<Longrightarrow> send_inv \<sigma> \<Longrightarrow> send_inv \<tau>"
proof (induction rule: fc_step.induct)
  case (open_stream sw \<sigma> sid)
  then show ?case by (simp add: send_inv_def newStreamFlowController_def str_send_ok_def)
next
  case (receive i \<sigma> offset final now e sc)
  then show ?case using receive.send_inv_put(1)[of \<sigma> i "(offset, final, now)" "e \<noteq> None" sc "e \<noteq> None"] by simp
next
  case (read i \<sigma> n b sc)
  then show ?case using read.send_inv_put(2)[of \<sigma> i n False sc] by simp
next
  case (abandon i \<sigma> sc)
  then show ?case using abandon.send_inv_put(2)[of \<sigma> i False sc] by simp
next
  case (send i \<sigma> n ok sc)
  then show ?case using send.send_inv_put(2)[of \<sigma> i n False sc] by simp
next
  case (send_limited i \<sigma> n limiter r sc)
  then show ?case using send_limited.send_inv_put(2)[of \<sigma> i "(n, limiter)" False sc] by simp
next
  case (stream_credit i \<sigma> offset b s)
  then show ?case using stream_credit.send_inv_put(2)[of \<sigma> i offset False] by simp
next
  case (stream_blocked i \<sigma> b s)
  then show ?case using stream_blocked.send_inv_put(2)[of \<sigma> i False] by simp
next
  case (stream_update i \<sigma> rtt now off sc)
  then show ?case using stream_update.send_inv_put(2)[of \<sigma> i "(rtt, now)" False sc] by simp
next
  case (conn_credit offset \<sigma> b c)
  then show ?case by (auto simp: send_inv_def conn_send_ok_def dest!: conn_UpdateSendWindow_ok)
next
  case (conn_blocked \<sigma> b c)
  then obtain w where "c = (cfc \<sigma>)\<lparr>conn_lastBlockedAt := w\<rparr>" using conn_IsNewlyBlocked_ok by blast
  then show ?case using conn_blocked(2) by (simp add: send_inv_def conn_send_ok_def)
next
  case (conn_update rtt now \<sigma> off c)
  then show ?case
    by (auto simp: send_inv_def conn_send_ok_def conn_GetWindowUpdate_def elim!: getWindowUpdate_form)
next
  case (callback \<sigma> g)
  then show ?case by (simp add: send_inv_def conn_send_ok_def)
next
  case (reset \<sigma> c)
  then show ?case using conn_Reset_ok(1)[OF reset(1)] by (simp add: send_inv_def conn_send_ok_def)
qed

text \<open>A step from an open to an open connection; the stream list keeps its streams unless they are dropped.\<close>

lemma closed_put [simp]: "closed (put i sc \<sigma>) = closed \<sigma>"
  by (simp add: put_def)

lemma fc_step_recv_inv:
  assumes "fc_step cfg \<sigma> \<tau>" "recv_inv cfg \<sigma>" "\<not> closed \<tau>" "0 < InitialStreamReceiveWindow cfg"
  shows "recv_inv cfg \<tau> \<and> receiveWindow (cfc \<sigma>) \<le> receiveWindow (cfc \<tau>)"
  using assms
proof (induction rule: fc_step.induct)
  case (open_stream sw \<sigma> sid)
  then show ?case
    by (simp add: recv_inv_def newStreamFlowController_def str_recv_ok_def recv_ok_def)
next
  case (receive i \<sigma> offset final now e sc)
  then show ?case using receive.recv_inv_put(1,3)[where p = "(offset, final, now)" and \<sigma> = \<sigma> and i = i and sc = sc and cfg = cfg] by (simp add: put_def)
next
  case (read i \<sigma> n b sc)
  then show ?case using read.recv_inv_put(2,3)[of cfg \<sigma> i n sc] by (simp add: put_def)
next
  case (abandon i \<sigma> sc)
  then show ?case using abandon.recv_inv_put(2,3)[of cfg \<sigma> i sc] by (simp add: put_def)
next
  case (send i \<sigma> n ok sc)
  then show ?case using send.recv_inv_put(2,3)[of cfg \<sigma> i n sc] by (simp add: put_def)
next
  case (send_limited i \<sigma> n limiter r sc)
  then show ?case using send_limited.recv_inv_put(2,3)[of cfg \<sigma> i "(n, limiter)" sc] by (simp add: put_def)
next
  case (stream_credit i \<sigma> offset b s)
  then show ?case using stream_credit.recv_inv_put(2,3)[of cfg \<sigma> i offset] by (simp add: put_def)
next
  case (stream_blocked i \<sigma> b s)
  then show ?case using stream_blocked.recv_inv_put(2,3)[of cfg \<sigma> i] by (simp add: put_def)
next
  case (stream_update i \<sigma> rtt now off sc)
  then show ?case using stream_update.recv_inv_put(2,3)[of cfg \<sigma> i "(rtt, now)" sc] by (simp add: put_def)
next
  case (conn_credit offset \<sigma> b c)
  then show ?case by (auto simp: recv_inv_def recv_ok_def dest!: conn_UpdateSendWindow_ok)
next
  case (conn_blocked \<sigma> b c)
  then obtain w where "c = (cfc \<sigma>)\<lparr>conn_lastBlockedAt := w\<rparr>" using conn_IsNewlyBlocked_ok by blast
  then show ?case using conn_blocked(2) by (simp add: recv_inv_def recv_ok_def)
next
  case (conn_update rtt now \<sigma> off c)
  then show ?case
    by (auto simp: recv_inv_def conn_GetWindowUpdate_def dest!: getWindowUpdate_ok)
next
  case (callback \<sigma> g)
  then show ?case by (simp add: recv_inv_def recv_ok_def)
next
  case (reset \<sigma> c)
  have "0 \<le> (\<Sum>s\<leftarrow>sfcs \<sigma>. highestReceived s)"
    using reset(2) by (intro sum_list_nonneg) (auto simp: recv_inv_def fc_ok_defs)
  then show ?case using reset(2) conn_Reset_ok[OF reset(1)] by (auto simp: recv_inv_def recv_ok_def)
qed

lemma fc_step_closed: "fc_step cfg \<sigma> \<tau> \<Longrightarrow> closed \<sigma> \<Longrightarrow> closed \<tau>"
  by (induction rule: fc_step.induct) auto

definition fc_config_ok :: "fc_config \<Rightarrow> bool" where
  "fc_config_ok cfg \<longleftrightarrow> 0 < InitialStreamReceiveWindow cfg \<and> 0 < InitialConnectionReceiveWindow cfg"

lemma fc_reachable_inv:
  assumes "fc_reachable cfg \<sigma>" "fc_config_ok cfg"
  shows "send_inv \<sigma> \<and> (\<not> closed \<sigma> \<longrightarrow> recv_inv cfg \<sigma>)"
  using assms
proof (induction rule: fc_reachable.induct)
  case (init allow)
  then show ?case
    by (simp add: fc_init_def newConnectionFlowController_def send_inv_def recv_inv_def conn_send_ok_def recv_ok_def
        fc_config_ok_def)
next
  case (step \<sigma> \<tau>)
  then show ?case
    using fc_step_send_inv fc_step_recv_inv fc_step_closed unfolding fc_config_ok_def by meson
qed

lemma hasWindowUpdate_exhausted:
  assumes "bytesRead x = receiveWindow x" "0 < receiveWindowSize x"
  shows "hasWindowUpdate x"
  using assms by (simp add: hasWindowUpdate_def WindowUpdateThreshold_def)

lemma getWindowUpdate_exhausted:
  assumes "bytesRead x = receiveWindow x" "0 < receiveWindowSize x" "getWindowUpdate rtt now x = (off, x')"
  shows "receiveWindow x < off" "receiveWindow x' = off"
  using assms hasWindowUpdate_exhausted[OF assms(1,2)] by (auto elim!: getWindowUpdate_form)

section \<open>Properties\<close>

text \<open>
  (C30) Whatever the calls on a connection and its streams and their order, no more bytes are sent
  than the peer has allowed, on each stream and on the connection as a whole; the bytes the
  connection counts are those of its streams, on the sending and, until a violation closes the
  connection, on the receiving side; and the window update of a stream never panics.
\<close>

theorem flow_control_accounting:
  assumes "fc_reachable cfg \<sigma>" "fc_config_ok cfg"
  shows "(\<forall>s \<in> set (sfcs \<sigma>). str_bytesSent s \<le> str_sendWindow s)
    \<and> conn_bytesSent (cfc \<sigma>) \<le> conn_sendWindow (cfc \<sigma>)
    \<and> conn_bytesSent (cfc \<sigma>) = (\<Sum>s\<leftarrow>sfcs \<sigma>. str_bytesSent s)
    \<and> (\<not> closed \<sigma> \<longrightarrow> highestReceived (cfc \<sigma>) = (\<Sum>s\<leftarrow>sfcs \<sigma>. highestReceived s)
         \<and> bytesRead (cfc \<sigma>) = (\<Sum>s\<leftarrow>sfcs \<sigma>. bytesRead s))
    \<and> (\<forall>s \<in> set (sfcs \<sigma>). \<forall>rtt now. str_GetWindowUpdate rtt now s (cfc \<sigma>) \<noteq> Panic)"
proof -
  have i: "send_inv \<sigma>" "\<not> closed \<sigma> \<longrightarrow> recv_inv cfg \<sigma>" using fc_reachable_inv[OF assms] by blast+
  have "str_GetWindowUpdate rtt now s (cfc \<sigma>) \<noteq> Panic" for rtt now s
    using stream_update.returns[of "cfc \<sigma>" "(rtt, now)" s] i(1) by (auto simp: send_inv_def)
  then show ?thesis using i by (auto simp: send_inv_def recv_inv_def str_send_ok_def conn_send_ok_def)
qed


text \<open>
  (C32) Flow control does not deadlock: when the peer has used up its credit on a stream or on the
  connection and the application then reads everything that was buffered, that read reports that
  an update is due, and the update grants the peer strictly more credit than it had, whatever the
  auto-tuning decides.
\<close>

theorem reading_reopens_window:
  assumes "fc_reachable cfg \<sigma>" "fc_config_ok cfg" "\<not> closed \<sigma>" "i < length (sfcs \<sigma>)"
    and "n = highestReceived (sfcs \<sigma> ! i) - bytesRead (sfcs \<sigma> ! i)"
    and "str_AddBytesRead n (sfcs \<sigma> ! i) (cfc \<sigma>) = ((hasStream, hasConn), s, c)"
  shows "(highestReceived s = receiveWindow s \<and> \<not> receivedFinalOffset s \<longrightarrow>
       hasStream \<and> (\<exists>off s' c'. str_GetWindowUpdate rtt now s c = Done (off, s', c')
         \<and> receiveWindow (sfcs \<sigma> ! i) < off \<and> receiveWindow s' = off))
    \<and> (highestReceived c = receiveWindow c \<and> (\<forall>j < length (sfcs \<sigma>). j \<noteq> i \<longrightarrow> bytesRead (sfcs \<sigma> ! j) = highestReceived (sfcs \<sigma> ! j)) \<longrightarrow>
       hasConn \<and> receiveWindow (cfc \<sigma>) < fst (conn_GetWindowUpdate rtt now c))"
proof -
  let ?s = "sfcs \<sigma> ! i" and ?c = "cfc \<sigma>"
  have i: "recv_inv cfg \<sigma>" "send_inv \<sigma>" using fc_reachable_inv[OF assms(1,2)] assms(3) by blast+
  then have ok: "str_recv_ok (stream_limit cfg) ?s" "recv_ok (conn_limit cfg) ?c" "conn_send_ok ?c"
    using assms(4) by (auto simp: recv_inv_def send_inv_def)
  have s: "s = ?s\<lparr>bytesRead := highestReceived ?s\<rparr>" "hasStream = shouldQueueWindowUpdate s"
    and c: "c = ?c\<lparr>bytesRead := bytesRead ?c + n\<rparr>" "hasConn = hasWindowUpdate c"
    using assms(5,6) by (auto simp: str_AddBytesRead_def conn_AddBytesRead_def addBytesRead_def Let_def)
  have "hasStream \<and> (\<exists>off s' c'. str_GetWindowUpdate rtt now s c = Done (off, s', c')
      \<and> receiveWindow ?s < off \<and> receiveWindow s' = off)"
    if h: "highestReceived s = receiveWindow s" "\<not> receivedFinalOffset s"
  proof -
    have e: "bytesRead s = receiveWindow s" "0 < receiveWindowSize s" "receiveWindow s = receiveWindow ?s"
      using h ok(1) by (auto simp: s(1) fc_ok_defs)
    have "conn_send_ok c" using ok(3) by (simp add: c(1) conn_send_ok_def)
    then have "str_GetWindowUpdate rtt now s c \<noteq> Panic" using stream_update.returns[of c "(rtt, now)" s] by auto
    then obtain off s' c' where u: "str_GetWindowUpdate rtt now s c = Done (off, s', c')"
      by (metis outcome.exhaust surj_pair)
    then have "getWindowUpdate rtt now s = (off, s')" using h(2) by (cases rule: str_GetWindowUpdate_cases) auto
    then show ?thesis
      using u getWindowUpdate_exhausted[OF e(1,2)] e(3) hasWindowUpdate_exhausted[OF e(1,2)] h(2)
      by (auto simp: s(2) shouldQueueWindowUpdate_def)
  qed
  moreover have "hasConn \<and> receiveWindow ?c < fst (conn_GetWindowUpdate rtt now c)"
    if h: "highestReceived c = receiveWindow c"
      "\<forall>j < length (sfcs \<sigma>). j \<noteq> i \<longrightarrow> bytesRead (sfcs \<sigma> ! j) = highestReceived (sfcs \<sigma> ! j)"
  proof -
    have "map bytesRead ((sfcs \<sigma>)[i := s]) = map highestReceived ((sfcs \<sigma>)[i := s])"
    proof (rule nth_equalityI)
      fix j assume j: "j < length (map bytesRead ((sfcs \<sigma>)[i := s]))"
      show "map bytesRead ((sfcs \<sigma>)[i := s]) ! j = map highestReceived ((sfcs \<sigma>)[i := s]) ! j"
        using j h(2) by (cases "j = i") (simp_all add: s(1))
    qed simp
    then have "(\<Sum>s\<leftarrow>(sfcs \<sigma>)[i := s]. bytesRead s) = (\<Sum>s\<leftarrow>(sfcs \<sigma>)[i := s]. highestReceived s)" by (simp only:)
    then have "bytesRead c = highestReceived c"
      using i(1) assms(4,5) by (simp add: sum_update c(1) s(1) recv_inv_def)
    then have e: "bytesRead c = receiveWindow c" "0 < receiveWindowSize c" "receiveWindow c = receiveWindow ?c"
      using h(1) ok(2) by (auto simp: c(1) fc_ok_defs)
    obtain off c' where u: "getWindowUpdate rtt now c = (off, c')" by force
    show ?thesis
      using getWindowUpdate_exhausted[OF e(1,2) u] hasWindowUpdate_exhausted[OF e(1,2)] e(3)
      by (simp add: c(2) conn_GetWindowUpdate_def u)
  qed
  ultimately show ?thesis by blast
qed

text \<open>
  A run: a stream is opened, the peer fills its window and that of the connection, 10 of 100
  bytes are read; then half of the credit of 50 bytes is sent.
\<close>

definition example_config :: fc_config where
  "example_config = \<lparr>InitialStreamReceiveWindow = 100, MaxStreamReceiveWindow = 400,
     InitialConnectionReceiveWindow = 100, MaxConnectionReceiveWindow = 600\<rparr>"

definition example_run :: fc_state where
  "example_run =
     (let \<sigma> = fc_init example_config (\<lambda>_. True);
          \<sigma> = \<sigma>\<lparr>sfcs := sfcs \<sigma> @ [newStreamFlowController 0 100 400 50]\<rparr>;
          \<sigma> = put 0 (snd (UpdateHighestReceived 100 False 7 (sfcs \<sigma> ! 0) (cfc \<sigma>))) (\<sigma>\<lparr>closed := False\<rparr>);
          \<sigma> = put 0 (snd (str_AddBytesRead 10 (sfcs \<sigma> ! 0) (cfc \<sigma>))) \<sigma>;
          \<sigma> = \<sigma>\<lparr>cfc := snd (conn_UpdateSendWindow 60 (cfc \<sigma>))\<rparr>
      in put 0 (snd (str_TryAddBytesSent 25 (sfcs \<sigma> ! 0) (cfc \<sigma>))) \<sigma>)"

lemma example_config_ok: "fc_config_ok example_config"
  by code_simp

lemma example_open: "\<not> closed example_run"
  by code_simp

lemma example_reachable: "fc_reachable example_config example_run"
proof -
  define \<sigma>0 where "\<sigma>0 = fc_init example_config (\<lambda>_. True)"
  define \<sigma>1 where "\<sigma>1 = \<sigma>0\<lparr>sfcs := sfcs \<sigma>0 @ [newStreamFlowController 0 100 400 50]\<rparr>"
  define \<sigma>2 where "\<sigma>2 = put 0 (snd (UpdateHighestReceived 100 False 7 (sfcs \<sigma>1 ! 0) (cfc \<sigma>1))) (\<sigma>1\<lparr>closed := False\<rparr>)"
  define \<sigma>3 where "\<sigma>3 = put 0 (snd (str_AddBytesRead 10 (sfcs \<sigma>2 ! 0) (cfc \<sigma>2))) \<sigma>2"
  define \<sigma>4 where "\<sigma>4 = \<sigma>3\<lparr>cfc := snd (conn_UpdateSendWindow 60 (cfc \<sigma>3))\<rparr>"
  note d = \<sigma>0_def \<sigma>1_def \<sigma>2_def \<sigma>3_def \<sigma>4_def
  have 0: "fc_reachable example_config \<sigma>0" unfolding \<sigma>0_def by (rule init)
  have "fc_step example_config \<sigma>0 \<sigma>1"
    unfolding \<sigma>1_def using open_stream[of 50 example_config \<sigma>0 0] by (simp add: example_config_def)
  then have 1: "fc_reachable example_config \<sigma>1" by (rule step[OF 0])
  have e: "fst (UpdateHighestReceived 100 False 7 (sfcs \<sigma>1 ! 0) (cfc \<sigma>1)) = None" unfolding d by code_simp
  have "fc_step example_config \<sigma>1 \<sigma>2"
  proof -
    have "UpdateHighestReceived 100 False 7 (sfcs \<sigma>1 ! 0) (cfc \<sigma>1)
        = (None, snd (UpdateHighestReceived 100 False 7 (sfcs \<sigma>1 ! 0) (cfc \<sigma>1)))" by (simp flip: e)
    from fc_step.receive[OF _ _ _ this, of example_config] show ?thesis
      unfolding \<sigma>2_def by (simp add: \<sigma>1_def \<sigma>0_def fc_init_def)
  qed
  then have 2: "fc_reachable example_config \<sigma>2" by (rule step[OF 1])
  have l: "0 < length (sfcs \<sigma>2)" "10 \<le> highestReceived (sfcs \<sigma>2 ! 0) - bytesRead (sfcs \<sigma>2 ! 0)"
    "0 < length (sfcs \<sigma>4)" unfolding d by code_simp+
  have "fc_step example_config \<sigma>2 \<sigma>3"
    unfolding \<sigma>3_def by (rule fc_step.read[OF l(1) _ l(2) prod.collapse[symmetric]]) simp
  then have 3: "fc_reachable example_config \<sigma>3" by (rule step[OF 2])
  have "fc_step example_config \<sigma>3 \<sigma>4"
    unfolding \<sigma>4_def by (rule fc_step.conn_credit[OF prod.collapse[symmetric]])
  then have 4: "fc_reachable example_config \<sigma>4" by (rule step[OF 3])
  have "fc_step example_config \<sigma>4 example_run"
    unfolding example_run_def Let_def d[symmetric] by (rule fc_step.send[OF l(3) _ prod.collapse[symmetric]]) simp
  then show ?thesis by (rule step[OF 4])
qed

theorem flow_control_accounting_witness:
  "conn_bytesSent (cfc example_run) = 25 \<and> conn_bytesSent (cfc example_run) \<le> conn_sendWindow (cfc example_run)
   \<and> str_GetWindowUpdate 5 9 (sfcs example_run ! 0) (cfc example_run) \<noteq> Panic"
proof -
  have "0 < length (sfcs example_run)" "conn_bytesSent (cfc example_run) = 25" by code_simp+
  then have "sfcs example_run ! 0 \<in> set (sfcs example_run)" "conn_bytesSent (cfc example_run) = 25" by simp_all
  then show ?thesis using flow_control_accounting[OF example_reachable example_config_ok] by blast
qed


theorem reading_reopens_window_witness:
  "let (flags, s, c) = str_AddBytesRead 90 (sfcs example_run ! 0) (cfc example_run)
   in flags = (True, True) \<and> (\<exists>off s' c'. str_GetWindowUpdate 5 9 s c = Done (off, s', c') \<and> 100 < off \<and> receiveWindow s' = off)
      \<and> 100 < fst (conn_GetWindowUpdate 5 9 c)"
proof -
  obtain hs hc s c where r: "str_AddBytesRead 90 (sfcs example_run ! 0) (cfc example_run) = ((hs, hc), s, c)"
    by (metis surj_pair)
  have n: "90 = highestReceived (sfcs example_run ! 0) - bytesRead (sfcs example_run ! 0)" "0 < length (sfcs example_run)"
    and w: "receiveWindow (sfcs example_run ! 0) = 100" "receiveWindow (cfc example_run) = 100"
    and j: "length (sfcs example_run) = 1" by code_simp+
  have "(case str_AddBytesRead 90 (sfcs example_run ! 0) (cfc example_run) of (_, s, c) \<Rightarrow>
      highestReceived s = receiveWindow s \<and> \<not> receivedFinalOffset s \<and> highestReceived c = receiveWindow c)" by code_simp
  then have "highestReceived s = receiveWindow s" "\<not> receivedFinalOffset s" "highestReceived c = receiveWindow c"
    by (simp_all add: r)
  then show ?thesis
    using reading_reopens_window[OF example_reachable example_config_ok example_open n(2,1) r, of 5 9]
    by (simp add: r w j)
qed

end
