(* ===== verification/Avl_Tree.thy ===== *)
theory Avl_Tree
  imports Gost_Prelude
begin

text \<open>
  The AVL tree of \<open>src/quic-go/internal/utils/tree/tree.go\<close>, generic in the type of its values: the methods
  \<open>Comp\<close> and \<open>Match\<close> of the type parameter are arguments of the operations that call them. A nil
  pointer is \<open>NilNode\<close>; following one is a panic. The operations update nodes in place and return
  the new root of the subtree, which here is the returned value; no node is shared between trees.
  Heights are int8 in the source and integers here: \<open>avl_height\<close> bounds them by twice the binary
  logarithm of the number of nodes, so no tree that fits into memory reaches 128.

  The contract of the type parameter is the locale \<open>tree_val\<close>, in which the operations are shown to
  implement sorted lists without duplicates; \<open>ByteInterval\<close> of \<open>streamframe_interval.go\<close>, the type
  the program uses, is its instance.
\<close>

section \<open>Nodes\<close>

datatype 'a node = NilNode | Node (left: "'a node") (Value: 'a) (right: "'a node") (node_height: int)

fun height :: "'a node \<Rightarrow> int" where
  "height NilNode = 0"
| "height (Node _ _ _ h) = h"

fun balance :: "'a node \<Rightarrow> int" where
  "balance NilNode = 0"
| "balance (Node l _ r _) = height l - height r"

definition maxHeight :: "'a node \<Rightarrow> 'a node \<Rightarrow> int" where
  "maxHeight l r = (let rh = height r; lh = height l in if rh > lh then rh else lh)"

text \<open>A node whose height has been set from its children, \<open>n.height = n.maxHeight() + 1\<close>.\<close>

definition mk :: "'a node \<Rightarrow> 'a \<Rightarrow> 'a node \<Rightarrow> 'a node" where
  "mk l v r = Node l v r (maxHeight l r + 1)"

fun rotateRight :: "'a node \<Rightarrow> 'a node outcome" where
  "rotateRight (Node (Node ll lv lr _) v r _) = Done (mk ll lv (mk lr v r))"
| "rotateRight _ = Panic"

fun rotateLeft :: "'a node \<Rightarrow> 'a node outcome" where
  "rotateLeft (Node l v (Node rl rv rr _) _) = Done (mk (mk l v rl) rv rr)"
| "rotateLeft _ = Panic"

text \<open>The second half of \<open>insert\<close>, after the recursive call.\<close>

definition insert_balance :: "('a \<Rightarrow> 'a \<Rightarrow> int) \<Rightarrow> 'a \<Rightarrow> 'a node \<Rightarrow> 'a \<Rightarrow> 'a node \<Rightarrow> 'a node outcome" where
  "insert_balance cmp val l v r =
     (let n = mk l v r; c = balance n
      in if c > 1 then
           (case l of NilNode \<Rightarrow> Panic
            | Node _ lv _ _ \<Rightarrow>
                let c = cmp val lv
                in if c < 0 then rotateRight n
                   else if c > 0 then bind_outcome (rotateLeft l) (\<lambda>l. rotateRight (Node l v r (node_height n)))
                   else Done n)
         else if c < -1 then
           (case r of NilNode \<Rightarrow> Panic
            | Node _ rv _ _ \<Rightarrow>
                let c = cmp val rv
                in if c > 0 then rotateLeft n
                   else if c < 0 then bind_outcome (rotateRight r) (\<lambda>r. rotateLeft (Node l v r (node_height n)))
                   else Done n)
         else Done n)"

fun insert_node :: "('a \<Rightarrow> 'a \<Rightarrow> int) \<Rightarrow> 'a node \<Rightarrow> 'a \<Rightarrow> bool \<Rightarrow> ('a node \<times> bool) outcome" where
  "insert_node cmp NilNode val added = Done (Node NilNode val NilNode 1, True)"
| "insert_node cmp (Node l v r h) val added =
     (let c = cmp val v
      in if c > 0 then bind_outcome (insert_node cmp r val added) (\<lambda>(r, added).
           bind_outcome (insert_balance cmp val l v r) (\<lambda>n. Done (n, added)))
         else if c < 0 then bind_outcome (insert_node cmp l val added) (\<lambda>(l, added).
           bind_outcome (insert_balance cmp val l v r) (\<lambda>n. Done (n, added)))
         else Done (Node l val r h, False))"

text \<open>The value of the leftmost node, \<open>n.min().Value\<close>.\<close>

fun min_value :: "'a node \<Rightarrow> 'a outcome" where
  "min_value NilNode = Panic"
| "min_value (Node l v r h) = (if l = NilNode then Done v else min_value l)"

text \<open>The re-balancing at the end of \<open>deleteNode\<close>.\<close>

definition delete_balance :: "'a node \<Rightarrow> 'a \<Rightarrow> 'a node \<Rightarrow> 'a node outcome" where
  "delete_balance l v r =
     (let n = mk l v r; bal = balance n
      in if bal > 1 then
           (if balance l \<ge> 0 then rotateRight n
            else bind_outcome (rotateLeft l) (\<lambda>l. rotateRight (Node l v r (node_height n))))
         else if bal < -1 then
           (if balance r \<le> 0 then rotateLeft n
            else bind_outcome (rotateRight r) (\<lambda>r. rotateLeft (Node l v r (node_height n))))
         else Done n)"

fun deleteNode :: "('a \<Rightarrow> 'a \<Rightarrow> int) \<Rightarrow> 'a node \<Rightarrow> 'a \<Rightarrow> bool \<Rightarrow> ('a node \<times> bool) outcome" where
  "deleteNode cmp NilNode val deleted = Done (NilNode, deleted)"
| "deleteNode cmp (Node l v r h) val deleted =
     (let c = cmp val v
      in if c < 0 then bind_outcome (deleteNode cmp l val deleted) (\<lambda>(l, deleted).
           bind_outcome (delete_balance l v r) (\<lambda>n. Done (n, deleted)))
         else if c > 0 then bind_outcome (deleteNode cmp r val deleted) (\<lambda>(r, deleted).
           bind_outcome (delete_balance l v r) (\<lambda>n. Done (n, deleted)))
         else if l = NilNode then Done (r, True)
         else if r = NilNode then Done (l, True)
         else bind_outcome (min_value r) (\<lambda>t.
           bind_outcome (deleteNode cmp r t deleted) (\<lambda>(r, _).
             bind_outcome (delete_balance l t r) (\<lambda>n. Done (n, True)))))"

fun get_node :: "('a \<Rightarrow> 'a \<Rightarrow> int) \<Rightarrow> 'a node \<Rightarrow> 'a \<Rightarrow> 'a option" where
  "get_node cmp NilNode val = None"
| "get_node cmp (Node l v r h) val =
     (let c = cmp val v in if c < 0 then get_node cmp l val else if c > 0 then get_node cmp r val else Some v)"

fun match_node :: "('a \<Rightarrow> 'a \<Rightarrow> int) \<Rightarrow> 'a node \<Rightarrow> 'a \<Rightarrow> 'a list \<Rightarrow> 'a list" where
  "match_node mt NilNode cond results = results"
| "match_node mt (Node l v r h) cond results =
     (let c = mt v cond
      in if c > 0 then match_node mt l cond results
         else if c < 0 then match_node mt r cond results
         else match_node mt r cond (match_node mt l cond results @ [v]))"

text \<open>
  The traversals. The iterator has a state and answers whether to go on; \<open>i\<close> counts the visited
  nodes. As in the source, the answer is passed down but not back to the caller, and the
  reverse traversal descends with the forward one.
\<close>

fun iterate :: "('a node \<Rightarrow> int \<Rightarrow> 's \<Rightarrow> 's \<times> bool) \<Rightarrow> 'a node \<Rightarrow> int \<times> 's \<Rightarrow> bool \<Rightarrow> int \<times> 's" where
  "iterate f NilNode (i, s) cont = (i, s)"
| "iterate f (Node l v r h) (i, s) cont =
     (if cont then
        (case iterate f l (i, s) cont of (i, s) \<Rightarrow>
           (case f (Node l v r h) i s of (s, cont) \<Rightarrow> iterate f r (i + 1, s) cont))
      else (i, s))"

fun rIterate :: "('a node \<Rightarrow> int \<Rightarrow> 's \<Rightarrow> 's \<times> bool) \<Rightarrow> 'a node \<Rightarrow> int \<times> 's \<Rightarrow> bool \<Rightarrow> int \<times> 's" where
  "rIterate f NilNode (i, s) cont = (i, s)"
| "rIterate f (Node l v r h) (i, s) cont =
     (if cont then
        (case iterate f r (i, s) cont of (i, s) \<Rightarrow>
           (case f (Node l v r h) i s of (s, cont) \<Rightarrow> iterate f l (i + 1, s) cont))
      else (i, s))"

section \<open>Trees\<close>

record 'a Btree =
  root :: "'a node"
  btree_values :: "'a list option"
  btree_len :: int

definition New :: "'a Btree" where
  "New = \<lparr>root = NilNode, btree_values = None, btree_len = 0\<rparr>"

definition Insert :: "('a \<Rightarrow> 'a \<Rightarrow> int) \<Rightarrow> 'a \<Rightarrow> 'a Btree \<Rightarrow> 'a Btree outcome" where
  "Insert cmp val t = bind_outcome (insert_node cmp (root t) val False) (\<lambda>(n, added).
     Done \<lparr>root = n, btree_values = None, btree_len = (if added then btree_len t + 1 else btree_len t)\<rparr>)"

fun InsertAll :: "('a \<Rightarrow> 'a \<Rightarrow> int) \<Rightarrow> 'a list \<Rightarrow> 'a Btree \<Rightarrow> 'a Btree outcome" where
  "InsertAll cmp [] t = Done t"
| "InsertAll cmp (v # vs) t = bind_outcome (Insert cmp v t) (InsertAll cmp vs)"

definition Delete :: "('a \<Rightarrow> 'a \<Rightarrow> int) \<Rightarrow> 'a \<Rightarrow> 'a Btree \<Rightarrow> 'a Btree outcome" where
  "Delete cmp val t = bind_outcome (deleteNode cmp (root t) val False) (\<lambda>(n, deleted).
     Done \<lparr>root = n, btree_values = None, btree_len = (if deleted then btree_len t - 1 else btree_len t)\<rparr>)"

fun DeleteAll :: "('a \<Rightarrow> 'a \<Rightarrow> int) \<Rightarrow> 'a list \<Rightarrow> 'a Btree \<Rightarrow> 'a Btree outcome" where
  "DeleteAll cmp [] t = Done t"
| "DeleteAll cmp (v # vs) t = bind_outcome (Delete cmp v t) (DeleteAll cmp vs)"

definition Get :: "('a \<Rightarrow> 'a \<Rightarrow> int) \<Rightarrow> 'a \<Rightarrow> 'a Btree \<Rightarrow> 'a option" where
  "Get cmp val t = get_node cmp (root t) val"

definition Contains :: "('a \<Rightarrow> 'a \<Rightarrow> int) \<Rightarrow> 'a \<Rightarrow> 'a Btree \<Rightarrow> bool" where
  "Contains cmp val t \<longleftrightarrow> Get cmp val t \<noteq> None"

definition Match :: "('a \<Rightarrow> 'a \<Rightarrow> int) \<Rightarrow> 'a \<Rightarrow> 'a Btree \<Rightarrow> 'a list" where
  "Match mt cond t = match_node mt (root t) cond []"

definition Ascend :: "('a node \<Rightarrow> int \<Rightarrow> 's \<Rightarrow> 's \<times> bool) \<Rightarrow> 'a Btree \<Rightarrow> 's \<Rightarrow> 's" where
  "Ascend f t s = snd (iterate f (root t) (0, s) True)"

definition Descend :: "('a node \<Rightarrow> int \<Rightarrow> 's \<Rightarrow> 's \<times> bool) \<Rightarrow> 'a Btree \<Rightarrow> 's \<Rightarrow> 's" where
  "Descend f t s = snd (rIterate f (root t) (0, s) True)"

text \<open>
  \<open>Values\<close> fills a slice of length \<open>len\<close> by index; a write past its end would panic. The list is
  built up from the entries that have been written.
\<close>

definition store_value :: "int \<Rightarrow> 'a node \<Rightarrow> int \<Rightarrow> 'a list outcome \<Rightarrow> 'a list outcome \<times> bool" where
  "store_value n nd i vs = (bind_outcome vs (\<lambda>vs. if i < n then Done (vs @ [Value nd]) else Panic), True)"

definition Values :: "'a Btree \<Rightarrow> ('a list \<times> 'a Btree) outcome" where
  "Values t =
     (case btree_values t of
        Some vs \<Rightarrow> Done (vs, t)
      | None \<Rightarrow> bind_outcome (Ascend (store_value (btree_len t)) t (Done []))
                  (\<lambda>vs. Done (vs, t\<lparr>btree_values := Some vs\<rparr>)))"

fun leftmost :: "'a node \<Rightarrow> 'a option" where
  "leftmost NilNode = None"
| "leftmost (Node l v r h) = (if l = NilNode then Some v else leftmost l)"

fun rightmost :: "'a node \<Rightarrow> 'a option" where
  "rightmost NilNode = None"
| "rightmost (Node l v r h) = (if r = NilNode then Some v else rightmost r)"

definition Head :: "'a Btree \<Rightarrow> 'a option" where
  "Head t = leftmost (root t)"

definition Tail :: "'a Btree \<Rightarrow> 'a option" where
  "Tail t = rightmost (root t)"

definition Pop :: "('a \<Rightarrow> 'a \<Rightarrow> int) \<Rightarrow> 'a Btree \<Rightarrow> ('a option \<times> 'a Btree) outcome" where
  "Pop cmp t = (case Tail t of None \<Rightarrow> Done (None, t)
     | Some v \<Rightarrow> bind_outcome (Delete cmp v t) (\<lambda>t. Done (Some v, t)))"

definition Pull :: "('a \<Rightarrow> 'a \<Rightarrow> int) \<Rightarrow> 'a Btree \<Rightarrow> ('a option \<times> 'a Btree) outcome" where
  "Pull cmp t = (case Head t of None \<Rightarrow> Done (None, t)
     | Some v \<Rightarrow> bind_outcome (Delete cmp v t) (\<lambda>t. Done (Some v, t)))"

section \<open>Sorted lists as the specification\<close>

fun values_of :: "'a node \<Rightarrow> 'a list" where
  "values_of NilNode = []"
| "values_of (Node l v r h) = values_of l @ v # values_of r"

text \<open>Heights are right, and the heights of siblings differ by one at most.\<close>

fun avl :: "'a node \<Rightarrow> bool" where
  "avl NilNode \<longleftrightarrow> True"
| "avl (Node l v r h) \<longleftrightarrow> avl l \<and> avl r \<and> h = max (height l) (height r) + 1 \<and> \<bar>height l - height r\<bar> \<le> 1"

lemma maxHeight_max: "maxHeight l r = max (height l) (height r)"
  by (simp add: maxHeight_def Let_def)

lemma height_mk [simp]: "height (mk l v r) = max (height l) (height r) + 1"
  by (simp add: mk_def maxHeight_max)

lemma values_of_mk [simp]: "values_of (mk l v r) = values_of l @ v # values_of r"
  by (simp add: mk_def)

lemma avl_mk [simp]: "avl (mk l v r) \<longleftrightarrow> avl l \<and> avl r \<and> \<bar>height l - height r\<bar> \<le> 1"
  by (simp add: mk_def maxHeight_max)

lemma avl_height_nonneg: "avl n \<Longrightarrow> 0 \<le> height n \<and> (height n = 0 \<longleftrightarrow> n = NilNode)"
  by (induction n) (auto simp: max_def)

text \<open>An AVL tree with \<open>k\<close> nodes has a height of at most twice the logarithm of \<open>k + 1\<close>.\<close>

lemma avl_height: "avl n \<Longrightarrow> 2 ^ nat (height n) \<le> (length (values_of n) + 1) ^ 2"
proof (induction n)
  case (Node l v r h)
  let ?L = "length (values_of l) + 1" and ?R = "length (values_of r) + 1"
  have IH: "2 ^ nat (height l) \<le> ?L ^ 2" "2 ^ nat (height r) \<le> ?R ^ 2" using Node by auto
  have 0: "0 \<le> height l" "0 \<le> height r" using Node.prems avl_height_nonneg by auto
  have twice: "2 ^ nat (height x + 2) \<le> (?L + ?R) ^ 2"
    if x: "x = l \<or> x = r" "height x \<le> height l" "height x \<le> height r" for x
  proof -
    have "2 ^ nat (height x) \<le> (2::nat) ^ nat (height l)" "2 ^ nat (height x) \<le> (2::nat) ^ nat (height r)"
      using x by (auto intro!: power_increasing nat_mono)
    then have "2 ^ nat (height x) \<le> ?L ^ 2" "2 ^ nat (height x) \<le> ?R ^ 2" using IH by linarith+
    moreover have "a ^ 2 \<le> a * b \<or> b ^ 2 \<le> a * b" for a b :: nat
      using linear[of a b] by (auto simp: power2_eq_square)
    then have "?L ^ 2 \<le> ?L * ?R \<or> ?R ^ 2 \<le> ?L * ?R" .
    ultimately have "4 * 2 ^ nat (height x) \<le> ?L ^ 2 + ?R ^ 2 + 2 * (?L * ?R)" by linarith
    then show ?thesis using 0 x by (auto simp: power2_eq_square algebra_simps nat_add_distrib)
  qed
  have "h \<le> height l + 2 \<and> h \<le> height r + 2" using Node.prems by auto
  moreover obtain x where x: "x = l \<or> x = r" "height x \<le> height l" "height x \<le> height r"
    by (cases "height l \<le> height r") auto
  ultimately have "nat h \<le> nat (height x + 2)" by auto
  then have "(2::nat) ^ nat h \<le> 2 ^ nat (height x + 2)" by (intro power_increasing) auto
  also have "\<dots> \<le> (?L + ?R) ^ 2" by (rule twice[OF x])
  finally show ?case by simp
qed simp

text \<open>What re-balancing gives when the heights differ by two at most.\<close>

lemma delete_balance_ok:
  assumes "avl l" "avl r" "\<bar>height l - height r\<bar> \<le> 2"
  obtains n where "delete_balance l v r = Done n" "avl n" "values_of n = values_of l @ v # values_of r"
    "max (height l) (height r) \<le> height n" "height n \<le> max (height l) (height r) + 1"
    "\<bar>height l - height r\<bar> \<le> 1 \<Longrightarrow> n = mk l v r"
    "height l = height r + 2 \<Longrightarrow> balance l \<noteq> 0 \<Longrightarrow> height n = height l"
    "height r = height l + 2 \<Longrightarrow> balance r \<noteq> 0 \<Longrightarrow> height n = height r"
proof -
  consider "\<bar>height l - height r\<bar> \<le> 1" | "height l = height r + 2" | "height r = height l + 2"
    using assms(3) by linarith
  then show thesis
  proof cases
    case 1
    then have "\<not> 1 < height l - height r" "\<not> height l - height r < - 1" by linarith+
    then have "delete_balance l v r = Done (mk l v r)" by (simp add: delete_balance_def Let_def mk_def)
    then show thesis using 1 assms by (intro that[of "mk l v r"]) auto
  next
    case 2
    obtain ll lv lr lh where l: "l = Node ll lv lr lh"
      using 2 assms avl_height_nonneg[of r] by (cases l) auto
    show thesis
    proof (cases "balance l \<ge> 0")
      case True
      then have "delete_balance l v r = Done (mk ll lv (mk lr v r))"
        using 2 by (simp add: delete_balance_def l mk_def)
      then show thesis using that[of "mk ll lv (mk lr v r)"] True 2 assms by (auto simp: l max_def)
    next
      case False
      then obtain rl rv rr rh where lr: "lr = Node rl rv rr rh"
        using assms(1) avl_height_nonneg[of ll] by (cases lr) (auto simp: l)
      have "delete_balance l v r = Done (mk (mk ll lv rl) rv (mk rr v r))"
        using 2 False by (simp add: delete_balance_def l lr mk_def)
      moreover have h: "height ll = max (height rl) (height rr)" "height r = height ll" "\<bar>height rl - height rr\<bar> \<le> 1"
        "height l = height r + 2" "avl ll" "avl rl" "avl rr"
        using False 2 assms(1) by (auto simp: l lr)
      ultimately show thesis using assms(2) by (intro that[of "mk (mk ll lv rl) rv (mk rr v r)"]) (auto simp: l lr)
    qed
  next
    case 3
    obtain rl rv rr rh where r: "r = Node rl rv rr rh"
      using 3 assms avl_height_nonneg[of l] by (cases r) auto
    show thesis
    proof (cases "balance r \<le> 0")
      case True
      then have "delete_balance l v r = Done (mk (mk l v rl) rv rr)"
        using 3 by (simp add: delete_balance_def r mk_def)
      then show thesis using that[of "mk (mk l v rl) rv rr"] True 3 assms by (auto simp: r max_def)
    next
      case False
      then obtain ll lv lr lh where rl: "rl = Node ll lv lr lh"
        using assms(2) avl_height_nonneg[of rr] by (cases rl) (auto simp: r)
      have "delete_balance l v r = Done (mk (mk l v ll) lv (mk lr rv rr))"
        using 3 False by (simp add: delete_balance_def r rl mk_def)
      moreover have h: "height rr = max (height ll) (height lr)" "height l = height rr" "\<bar>height ll - height lr\<bar> \<le> 1"
        "height r = height l + 2" "avl ll" "avl lr" "avl rr"
        using False 3 assms(2) by (auto simp: r rl)
      ultimately show thesis using assms(1) by (intro that[of "mk (mk l v ll) lv (mk lr rv rr)"]) (auto simp: r rl)
    qed
  qed
qed

text \<open>
  Re-balancing after an insertion, when the taller child leans to the side of the new value:
  then the same rotation is chosen as after a deletion.
\<close>

definition leans :: "('a \<Rightarrow> 'a \<Rightarrow> int) \<Rightarrow> 'a \<Rightarrow> 'a node \<Rightarrow> bool" where
  "leans cmp val n \<longleftrightarrow> (\<forall>l v r h. n = Node l v r h \<longrightarrow>
     (cmp val v < 0 \<and> height l = height r + 1) \<or> (cmp val v > 0 \<and> height r = height l + 1))"

lemma insert_balance_delete_balance:
  assumes "height l > height r + 1 \<Longrightarrow> leans cmp val l \<and> l \<noteq> NilNode"
    and "height r > height l + 1 \<Longrightarrow> leans cmp val r \<and> r \<noteq> NilNode"
  shows "insert_balance cmp val l v r = delete_balance l v r"
proof -
  consider "height l > height r + 1" | "height r > height l + 1" | "\<bar>height l - height r\<bar> \<le> 1" by linarith
  then show ?thesis
  proof cases
    case 1
    with assms(1) obtain ll lv lr lh where l: "l = Node ll lv lr lh"
      "(cmp val lv < 0 \<and> height ll = height lr + 1) \<or> (cmp val lv > 0 \<and> height lr = height ll + 1)"
      by (cases l) (auto simp: leans_def)
    then show ?thesis using 1 by (auto simp: insert_balance_def delete_balance_def mk_def maxHeight_max Let_def)
  next
    case 2
    with assms(2) obtain rl rv rr rh where r: "r = Node rl rv rr rh"
      "(cmp val rv < 0 \<and> height rl = height rr + 1) \<or> (cmp val rv > 0 \<and> height rr = height rl + 1)"
      by (cases r) (auto simp: leans_def)
    then show ?thesis using 2 by (auto simp: insert_balance_def delete_balance_def mk_def maxHeight_max Let_def)
  next
    case 3
    then have "\<not> 1 < height l - height r" "\<not> height l - height r < - 1" by linarith+
    then show ?thesis by (simp add: insert_balance_def delete_balance_def mk_def Let_def)
  qed
qed

lemma insert_balance_ok:
  assumes "avl l" "avl r" "\<bar>height l - height r\<bar> \<le> 2"
    and "height l > height r + 1 \<Longrightarrow> leans cmp val l \<and> l \<noteq> NilNode"
    and "height r > height l + 1 \<Longrightarrow> leans cmp val r \<and> r \<noteq> NilNode"
  obtains n where "insert_balance cmp val l v r = Done n" "avl n" "values_of n = values_of l @ v # values_of r"
    "\<bar>height l - height r\<bar> \<le> 1 \<Longrightarrow> n = mk l v r"
    "\<bar>height l - height r\<bar> = 2 \<Longrightarrow> height n = max (height l) (height r)"
proof -
  have b: "balance n \<noteq> 0" if "leans cmp val n" "n \<noteq> NilNode" for n
    using that by (cases n) (auto simp: leans_def)
  obtain n where n: "delete_balance l v r = Done n" "avl n" "values_of n = values_of l @ v # values_of r"
    "\<bar>height l - height r\<bar> \<le> 1 \<Longrightarrow> n = mk l v r"
    "height l = height r + 2 \<Longrightarrow> balance l \<noteq> 0 \<Longrightarrow> height n = height l"
    "height r = height l + 2 \<Longrightarrow> balance r \<noteq> 0 \<Longrightarrow> height n = height r"
    by (rule delete_balance_ok[OF assms(1-3), of v]) blast
  have "height n = max (height l) (height r)" if d: "\<bar>height l - height r\<bar> = 2"
  proof -
    consider "height l = height r + 2" | "height r = height l + 2" using d by linarith
    then show ?thesis using n(5,6) b assms(4,5) by cases auto
  qed
  then show thesis using that[of n] n insert_balance_delete_balance[OF assms(4,5)] by simp
qed

lemma min_value_hd: "n \<noteq> NilNode \<Longrightarrow> min_value n = Done (hd (values_of n))"
  by (induction n) (auto simp: hd_append elim: values_of.elims)

section \<open>The contract of the values\<close>

locale tree_val =
  fixes cmp :: "'a \<Rightarrow> 'a \<Rightarrow> int"
  assumes cmp_eq: "cmp x y = 0 \<longleftrightarrow> x = y"
    and cmp_less: "cmp x y < 0 \<longleftrightarrow> cmp y x > 0"
    and cmp_trans: "cmp x y < 0 \<Longrightarrow> cmp y z < 0 \<Longrightarrow> cmp x z < 0"
begin

definition ascending :: "'a list \<Rightarrow> bool" where
  "ascending = sorted_wrt (\<lambda>x y. cmp x y < 0)"

lemma ascending_append:
  "ascending (xs @ v # ys) \<longleftrightarrow> ascending xs \<and> ascending ys \<and> (\<forall>x \<in> set xs. cmp x v < 0)
     \<and> (\<forall>y \<in> set ys. cmp v y < 0)"
  using cmp_trans by (auto simp: ascending_def sorted_wrt_append)

lemma ascending_distinct: "ascending xs \<Longrightarrow> distinct xs"
  using cmp_eq[of x x for x] by (induction xs) (auto simp: ascending_def)

lemma ascending_unique: "ascending xs \<Longrightarrow> ascending ys \<Longrightarrow> set xs = set ys \<Longrightarrow> xs = ys"
proof (induction xs arbitrary: ys)
  case (Cons x xs)
  then obtain y ys' where ys: "ys = y # ys'" by (cases ys) auto
  have "x = y"
    using Cons.prems cmp_less cmp_eq unfolding ys ascending_def
    by (metis list.set_intros(1) order_less_asym set_ConsD sorted_wrt.simps(2))
  moreover have "set xs = set ys'"
    using Cons.prems(3) ascending_distinct[OF Cons.prems(1)] ascending_distinct[OF Cons.prems(2)] \<open>x = y\<close>
    by (auto simp: ys)
  ultimately show ?case using Cons.IH[of ys'] Cons.prems by (simp add: ys ascending_def)
qed simp

lemma insert_node_ok:
  assumes "avl n" "ascending (values_of n)"
  obtains n' where "insert_node cmp n val added = Done (n', val \<notin> set (values_of n))" "avl n'"
    "ascending (values_of n')" "set (values_of n') = Set.insert val (set (values_of n))"
    "height n \<le> height n'" "height n' \<le> height n + 1" "n' \<noteq> NilNode"
    "height n' = height n + 1 \<Longrightarrow> n = NilNode \<or> leans cmp val n'"
proof -
  have "\<exists>n'. insert_node cmp n val added = Done (n', val \<notin> set (values_of n)) \<and> avl n' \<and> ascending (values_of n')
    \<and> set (values_of n') = Set.insert val (set (values_of n)) \<and> height n \<le> height n' \<and> height n' \<le> height n + 1
    \<and> n' \<noteq> NilNode \<and> (height n' = height n + 1 \<longrightarrow> n = NilNode \<or> leans cmp val n')"
    using assms
  proof (induction n)
    case NilNode
    then show ?case by (simp add: ascending_def)
  next
    case (Node l v r h)
    have asc: "ascending (values_of l @ v # values_of r)" using Node.prems(2) by simp
    note asc = this[unfolded ascending_append]
    have 0: "0 \<le> height l" "0 \<le> height r" using Node.prems(1) avl_height_nonneg by auto
    consider "cmp val v > 0" | "cmp val v < 0" | "val = v" using cmp_eq[of val v] by linarith
    then show ?case
    proof cases
      case 1
      then have c: "cmp v val < 0" using cmp_less by blast
      then have notin: "val \<notin> set (values_of l)" "val \<noteq> v" using asc cmp_less 1 cmp_eq[of v v] order_less_asym by fastforce+
      obtain r' where r': "insert_node cmp r val added = Done (r', val \<notin> set (values_of r))" "avl r'"
        "ascending (values_of r')" "set (values_of r') = Set.insert val (set (values_of r))"
        "height r \<le> height r'" "height r' \<le> height r + 1" "r' \<noteq> NilNode"
        "height r' = height r + 1 \<longrightarrow> r = NilNode \<or> leans cmp val r'"
        using Node.IH(2) Node.prems asc by auto
      obtain n' where n': "insert_balance cmp val l v r' = Done n'" "avl n'"
        "values_of n' = values_of l @ v # values_of r'" "\<bar>height l - height r'\<bar> \<le> 1 \<Longrightarrow> n' = mk l v r'"
        "\<bar>height l - height r'\<bar> = 2 \<Longrightarrow> height n' = max (height l) (height r')"
        using Node.prems(1) r'(2,5-8) 0 by (auto intro: insert_balance_ok[of l r' cmp val v])
      have i: "insert_node cmp (Node l v r h) val added = Done (n', val \<notin> set (values_of (Node l v r h)))"
        using 1 notin by (simp add: r'(1) n'(1))
      have a: "ascending (values_of n')" using asc r'(3,4) c by (auto simp: n'(3) ascending_append)
      consider "\<bar>height l - height r'\<bar> \<le> 1" | "height r' = height l + 2" using Node.prems(1) r'(5,6) by fastforce
      then show ?thesis
      proof cases
        case A: 1
        show ?thesis using i n'(2) a r' n'(3,4) A 1 Node.prems(1)
          by (intro exI[of _ n']) (auto simp: mk_def maxHeight_max leans_def)
      next
        case B: 2
        show ?thesis using i n'(2) a r' n'(3,5) B Node.prems(1) 0
          by (intro exI[of _ n']) (auto simp: avl_height_nonneg)
      qed
    next
      case 2
      then have notin: "val \<notin> set (values_of r)" "val \<noteq> v"
        using asc cmp_less cmp_eq[of v v] order_less_asym by fastforce+
      obtain l' where l': "insert_node cmp l val added = Done (l', val \<notin> set (values_of l))" "avl l'"
        "ascending (values_of l')" "set (values_of l') = Set.insert val (set (values_of l))"
        "height l \<le> height l'" "height l' \<le> height l + 1" "l' \<noteq> NilNode"
        "height l' = height l + 1 \<longrightarrow> l = NilNode \<or> leans cmp val l'"
        using Node.IH(1) Node.prems asc by auto
      obtain n' where n': "insert_balance cmp val l' v r = Done n'" "avl n'"
        "values_of n' = values_of l' @ v # values_of r" "\<bar>height l' - height r\<bar> \<le> 1 \<Longrightarrow> n' = mk l' v r"
        "\<bar>height l' - height r\<bar> = 2 \<Longrightarrow> height n' = max (height l') (height r)"
        using Node.prems(1) l'(2,5-8) 0 by (auto intro: insert_balance_ok[of l' r cmp val v])
      have i: "insert_node cmp (Node l v r h) val added = Done (n', val \<notin> set (values_of (Node l v r h)))"
        using 2 notin by (simp add: l'(1) n'(1))
      have a: "ascending (values_of n')" using asc l'(3,4) 2 by (auto simp: n'(3) ascending_append)
      consider "\<bar>height l' - height r\<bar> \<le> 1" | "height l' = height r + 2" using Node.prems(1) l'(5,6) by fastforce
      then show ?thesis
      proof cases
        case A: 1
        show ?thesis using i n'(2) a l' n'(3,4) A 2 Node.prems(1)
          by (intro exI[of _ n']) (auto simp: mk_def maxHeight_max leans_def)
      next
        case B: 2
        show ?thesis using i n'(2) a l' n'(3,5) B Node.prems(1) 0
          by (intro exI[of _ n']) (auto simp: avl_height_nonneg)
      qed
    next
      case 3
      then have "insert_node cmp (Node l v r h) val added = Done (Node l v r h, False)"
        using cmp_eq[of v v] by simp
      then show ?thesis using Node.prems 3 by auto
    qed
  qed
  then show thesis using that by blast
qed

lemma filter_ascending:
  assumes "ascending (xs @ v # ys)"
  shows "cmp val v < 0 \<Longrightarrow> filter (\<lambda>x. x \<noteq> val) (xs @ v # ys) = filter (\<lambda>x. x \<noteq> val) xs @ v # ys"
    and "cmp val v > 0 \<Longrightarrow> filter (\<lambda>x. x \<noteq> val) (xs @ v # ys) = xs @ v # filter (\<lambda>x. x \<noteq> val) ys"
    and "val = v \<Longrightarrow> filter (\<lambda>x. x \<noteq> val) (xs @ v # ys) = xs @ ys"
proof -
  have a: "\<forall>x \<in> set xs. cmp x v < 0" "\<forall>y \<in> set ys. cmp v y < 0" using assms by (auto simp: ascending_append)
  have irr: "\<not> cmp v v < 0" using cmp_eq[of v v] by simp
  have asym: "\<not> (cmp x v < 0 \<and> cmp v x < 0)" for x using cmp_trans[of v x v] irr by blast
  show "cmp val v < 0 \<Longrightarrow> filter (\<lambda>x. x \<noteq> val) (xs @ v # ys) = filter (\<lambda>x. x \<noteq> val) xs @ v # ys"
    using a irr asym by (auto simp: filter_id_conv)
  show "cmp val v > 0 \<Longrightarrow> filter (\<lambda>x. x \<noteq> val) (xs @ v # ys) = xs @ v # filter (\<lambda>x. x \<noteq> val) ys"
    using a irr asym cmp_less by (auto simp: filter_id_conv)
  have "filter (\<lambda>x. x \<noteq> v) xs = xs" "filter (\<lambda>x. x \<noteq> v) ys = ys" using a irr by (auto intro!: filter_True)
  then show "val = v \<Longrightarrow> filter (\<lambda>x. x \<noteq> val) (xs @ v # ys) = xs @ ys" by simp
qed

lemma deleteNode_ok:
  assumes "avl n" "ascending (values_of n)"
  obtains n' where "deleteNode cmp n val deleted = Done (n', deleted \<or> val \<in> set (values_of n))" "avl n'"
    "values_of n' = filter (\<lambda>x. x \<noteq> val) (values_of n)" "height n - 1 \<le> height n'" "height n' \<le> height n"
proof -
  have "\<exists>n'. deleteNode cmp n val deleted = Done (n', deleted \<or> val \<in> set (values_of n)) \<and> avl n'
    \<and> values_of n' = filter (\<lambda>x. x \<noteq> val) (values_of n) \<and> height n - 1 \<le> height n' \<and> height n' \<le> height n"
    using assms
  proof (induction n arbitrary: val deleted)
    case (Node l v r h)
    have asc: "ascending (values_of l @ v # values_of r)" using Node.prems(2) by simp
    note a = asc[unfolded ascending_append]
    have av: "avl l" "avl r" "h = max (height l) (height r) + 1" "\<bar>height l - height r\<bar> \<le> 1"
      using Node.prems(1) by auto
    have 0: "0 \<le> height l" "0 \<le> height r" using av avl_height_nonneg by auto
    consider "cmp val v < 0" | "cmp val v > 0" | "val = v" using cmp_eq[of val v] by linarith
    then show ?case
    proof cases
      case 1
      obtain l' where l': "deleteNode cmp l val deleted = Done (l', deleted \<or> val \<in> set (values_of l))" "avl l'"
        "values_of l' = filter (\<lambda>x. x \<noteq> val) (values_of l)" "height l - 1 \<le> height l'" "height l' \<le> height l"
        using Node.IH(1)[OF av(1)] a by blast
      have d: "\<bar>height l' - height r\<bar> \<le> 2" using av(4) l'(4,5) by linarith
      obtain n' where n': "delete_balance l' v r = Done n'" "avl n'" "values_of n' = values_of l' @ v # values_of r"
        "max (height l') (height r) \<le> height n'" "height n' \<le> max (height l') (height r) + 1"
        "\<bar>height l' - height r\<bar> \<le> 1 \<Longrightarrow> n' = mk l' v r"
        by (rule delete_balance_ok[OF l'(2) av(2) d, of v]) blast
      have "val \<notin> set (v # values_of r)" using a 1 cmp_eq[of v v] cmp_trans[of v val v] by auto
      then have e: "deleteNode cmp (Node l v r h) val deleted = Done (n', deleted \<or> val \<in> set (values_of (Node l v r h)))"
        using 1 by (simp add: l'(1) n'(1))
      have "h - 1 \<le> height n' \<and> height n' \<le> h"
      proof (cases "\<bar>height l' - height r\<bar> \<le> 1")
        case True
        then show ?thesis using n'(6) av(3,4) l'(4,5) by auto
      next
        case False
        then show ?thesis using n'(4,5) av(3,4) l'(4,5) by auto
      qed
      then show ?thesis using e n'(2,3) l'(3) filter_ascending(1)[OF asc 1] by auto
    next
      case 2
      obtain r' where r': "deleteNode cmp r val deleted = Done (r', deleted \<or> val \<in> set (values_of r))" "avl r'"
        "values_of r' = filter (\<lambda>x. x \<noteq> val) (values_of r)" "height r - 1 \<le> height r'" "height r' \<le> height r"
        using Node.IH(2)[OF av(2)] a by blast
      have d: "\<bar>height l - height r'\<bar> \<le> 2" using av(4) r'(4,5) by linarith
      obtain n' where n': "delete_balance l v r' = Done n'" "avl n'" "values_of n' = values_of l @ v # values_of r'"
        "max (height l) (height r') \<le> height n'" "height n' \<le> max (height l) (height r') + 1"
        "\<bar>height l - height r'\<bar> \<le> 1 \<Longrightarrow> n' = mk l v r'"
        by (rule delete_balance_ok[OF av(1) r'(2) d, of v]) blast
      have "val \<notin> set (v # values_of l)" using a 2 cmp_eq[of v v] cmp_less[of v val] cmp_trans[of v val v] by auto
      then have e: "deleteNode cmp (Node l v r h) val deleted = Done (n', deleted \<or> val \<in> set (values_of (Node l v r h)))"
        using 2 by (simp add: r'(1) n'(1))
      have "h - 1 \<le> height n' \<and> height n' \<le> h"
      proof (cases "\<bar>height l - height r'\<bar> \<le> 1")
        case True
        then show ?thesis using n'(6) av(3,4) r'(4,5) by auto
      next
        case False
        then show ?thesis using n'(4,5) av(3,4) r'(4,5) by auto
      qed
      then show ?thesis using e n'(2,3) r'(3) filter_ascending(2)[OF asc 2] by auto
    next
      case 3
      have c: "cmp v v = 0" using cmp_eq by simp
      note f = filter_ascending(3)[OF asc 3]
      consider "l = NilNode" | "l \<noteq> NilNode" "r = NilNode" | "l \<noteq> NilNode" "r \<noteq> NilNode" by blast
      then show ?thesis
      proof cases
        case A: 1
        then show ?thesis using f c 3 av 0 by auto
      next
        case B: 2
        then show ?thesis using f c 3 av 0 by auto
      next
        case C: 3
        obtain t ts where r: "values_of r = t # ts" 
          using C(2) by (cases "values_of r"; cases r) auto
        have asct: "ascending ([] @ t # ts)" using a by (simp add: r)
        obtain r' where r': "deleteNode cmp r t deleted = Done (r', deleted \<or> t \<in> set (values_of r))" "avl r'"
          "values_of r' = filter (\<lambda>x. x \<noteq> t) (values_of r)" "height r - 1 \<le> height r'" "height r' \<le> height r"
          using Node.IH(2)[OF av(2)] a by blast
        have ts: "values_of r' = ts" using r'(3) filter_ascending(3)[OF asct refl] by (simp add: r)
        have d: "\<bar>height l - height r'\<bar> \<le> 2" using av(4) r'(4,5) by linarith
        obtain n' where n': "delete_balance l t r' = Done n'" "avl n'" "values_of n' = values_of l @ t # values_of r'"
          "max (height l) (height r') \<le> height n'" "height n' \<le> max (height l) (height r') + 1"
          "\<bar>height l - height r'\<bar> \<le> 1 \<Longrightarrow> n' = mk l t r'"
          by (rule delete_balance_ok[OF av(1) r'(2) d, of t]) blast
        have e: "deleteNode cmp (Node l v r h) val deleted = Done (n', True)"
          using 3 c C min_value_hd[OF C(2)] by (simp add: r r'(1) n'(1))
        have "h - 1 \<le> height n' \<and> height n' \<le> h"
        proof (cases "\<bar>height l - height r'\<bar> \<le> 1")
          case True
          then show ?thesis using n'(6) av(3,4) r'(4,5) by auto
        next
          case False
          then show ?thesis using n'(4,5) av(3,4) r'(4,5) by auto
        qed
        then show ?thesis using e n'(2,3) f 3 by (auto simp: ts r)
      qed
    qed
  qed simp
  then show thesis using that by blast
qed

lemma get_node_iff: "ascending (values_of n) \<Longrightarrow> get_node cmp n val = (if val \<in> set (values_of n) then Some val else None)"
proof (induction n)
  case (Node l v r h)
  have asc: "ascending (values_of l @ v # values_of r)" using Node.prems by simp
  note a = asc[unfolded ascending_append]
  have n: "val \<notin> set (values_of r)" if "cmp val v < 0" using a that cmp_eq[of v v] cmp_trans[of v val v] by auto
  have m: "val \<notin> set (values_of l)" if "cmp val v > 0" using a that cmp_less[of v val] cmp_eq[of v v] cmp_trans[of v val v] by auto
  show ?case using Node.IH a n m cmp_eq[of val v] cmp_eq[of v v] by (auto simp: Let_def)
qed simp

end

text \<open>
  Searching with \<open>Match\<close> finds every match in ascending order if the values to the left of one that
  lies before the condition lie before it as well, and likewise to the right.
\<close>

definition match_sorted :: "('a \<Rightarrow> 'a \<Rightarrow> int) \<Rightarrow> 'a \<Rightarrow> 'a list \<Rightarrow> bool" where
  "match_sorted mt cond = sorted_wrt (\<lambda>v w. (mt v cond > 0 \<longrightarrow> mt w cond > 0) \<and> (mt w cond < 0 \<longrightarrow> mt v cond < 0))"

lemma match_node_filter:
  "match_sorted mt cond (values_of n) \<Longrightarrow> match_node mt n cond results = results @ filter (\<lambda>v. mt v cond = 0) (values_of n)"
proof (induction n arbitrary: results)
  case (Node l v r h)
  then have "match_sorted mt cond (values_of l)" "match_sorted mt cond (values_of r)"
    "\<forall>x \<in> set (values_of r). mt v cond > 0 \<longrightarrow> mt x cond > 0" "\<forall>x \<in> set (values_of l). mt v cond < 0 \<longrightarrow> mt x cond < 0"
    by (auto simp: match_sorted_def sorted_wrt_append)
  moreover from this have "mt v cond > 0 \<Longrightarrow> filter (\<lambda>v. mt v cond = 0) (values_of r) = []"
    "mt v cond < 0 \<Longrightarrow> filter (\<lambda>v. mt v cond = 0) (values_of l) = []"
    by (force simp: filter_empty_conv)+
  ultimately show ?case using Node.IH by (auto simp: Let_def)
qed simp

lemma store_value_Done: "store_value k nd i (Done vs) = (if i < k then Done (vs @ [Value nd]) else Panic, True)"
  by (simp add: store_value_def)

lemma iterate_store:
  assumes "i + int (length (values_of n)) \<le> k"
  shows "iterate (store_value k) n (i, Done vs) True = (i + int (length (values_of n)), Done (vs @ values_of n))"
  using assms
proof (induction n arbitrary: i vs)
  case (Node l v r h)
  have "iterate (store_value k) l (i, Done vs) True = (i + int (length (values_of l)), Done (vs @ values_of l))"
    using Node.prems by (intro Node.IH(1)) simp
  moreover have "iterate (store_value k) r (i + int (length (values_of l)) + 1, Done (vs @ values_of l @ [v])) True
      = (i + int (length (values_of l)) + 1 + int (length (values_of r)), Done ((vs @ values_of l @ [v]) @ values_of r))"
    using Node.prems by (intro Node.IH(2)) simp
  ultimately show ?case using Node.prems by (simp add: store_value_Done)
qed simp

section \<open>Trees\<close>

definition btree_ok :: "('a \<Rightarrow> 'a \<Rightarrow> int) \<Rightarrow> 'a Btree \<Rightarrow> bool" where
  "btree_ok cmp t \<longleftrightarrow> avl (root t) \<and> sorted_wrt (\<lambda>x y. cmp x y < 0) (values_of (root t))
     \<and> btree_len t = int (length (values_of (root t)))
     \<and> (btree_values t = None \<or> btree_values t = Some (values_of (root t)))"

definition btree_set :: "'a Btree \<Rightarrow> 'a set" where
  "btree_set t = set (values_of (root t))"

lemma New_ok: "btree_ok cmp New" "btree_set New = {}"
  by (simp_all add: btree_ok_def New_def btree_set_def)

lemma Values_ok:
  assumes "btree_ok cmp t"
  shows "\<exists>t'. Values t = Done (values_of (root t), t') \<and> btree_ok cmp t' \<and> root t' = root t"
  using assms iterate_store[of 0 "root t" "btree_len t" "[]"]
  by (cases "btree_values t") (auto simp: Values_def btree_ok_def Ascend_def)

context tree_val
begin

lemma Insert_ok:
  assumes "btree_ok cmp t"
  obtains t' where "Insert cmp v t = Done t'" "btree_ok cmp t'" "btree_set t' = Set.insert v (btree_set t)"
proof -
  have a: "avl (root t)" "ascending (values_of (root t))" using assms by (auto simp: btree_ok_def ascending_def)
  obtain n where n: "insert_node cmp (root t) v False = Done (n, v \<notin> set (values_of (root t)))" "avl n"
    "ascending (values_of n)" "set (values_of n) = Set.insert v (set (values_of (root t)))"
    by (rule insert_node_ok[OF a, of v False]) blast
  have "length (values_of n) = card (Set.insert v (set (values_of (root t))))"
    using ascending_distinct[OF n(3)] n(4) distinct_card by metis
  then have "int (length (values_of n)) = btree_len t + (if v \<in> set (values_of (root t)) then 0 else 1)"
    using ascending_distinct[OF a(2)] assms by (auto simp: card_insert_if distinct_card btree_ok_def)
  then show thesis
    using that n by (auto simp: Insert_def btree_ok_def btree_set_def ascending_def)
qed

lemma Delete_ok:
  assumes "btree_ok cmp t"
  obtains t' where "Delete cmp v t = Done t'" "btree_ok cmp t'" "btree_set t' = btree_set t - {v}"
proof -
  have a: "avl (root t)" "ascending (values_of (root t))" using assms by (auto simp: btree_ok_def ascending_def)
  obtain n where n: "deleteNode cmp (root t) v False = Done (n, False \<or> v \<in> set (values_of (root t)))" "avl n"
    "values_of n = filter (\<lambda>x. x \<noteq> v) (values_of (root t))"
    by (rule deleteNode_ok[OF a, of v False]) blast
  have asc: "ascending (values_of n)" unfolding n(3) using a(2) by (simp add: ascending_def sorted_wrt_filter)
  have s: "set (values_of n) = set (values_of (root t)) - {v}" by (auto simp: n(3))
  have "length (values_of n) = card (set (values_of (root t)) - {v})"
    using distinct_card[OF ascending_distinct[OF asc]] by (simp only: s)
  then have "int (length (values_of n)) = btree_len t - (if v \<in> set (values_of (root t)) then 1 else 0)"
    using ascending_distinct[OF a(2)] assms
    by (cases "v \<in> set (values_of (root t))"; cases "values_of (root t)")
       (simp_all add: card_Diff_singleton distinct_card btree_ok_def)
  then show thesis
    using that[of "\<lparr>root = n, btree_values = None, btree_len = btree_len t - (if v \<in> set (values_of (root t)) then 1 else 0)\<rparr>"]
      n(1,2) asc s by (simp add: Delete_def btree_ok_def btree_set_def ascending_def)
qed

lemma Contains_iff: "btree_ok cmp t \<Longrightarrow> Contains cmp v t \<longleftrightarrow> v \<in> btree_set t"
  using get_node_iff[of "root t" v] by (simp add: Contains_def Get_def btree_ok_def ascending_def btree_set_def)

end

section \<open>Byte intervals\<close>

record ByteInterval =
  Start :: int
  End :: int

definition ByteInterval_Comp :: "ByteInterval \<Rightarrow> ByteInterval \<Rightarrow> int" where
  "ByteInterval_Comp i v =
     (if Start i < Start v then -1 else if Start i > Start v then 1
      else if End i < End v then -1 else if End i > End v then 1 else 0)"

definition ByteInterval_Match :: "ByteInterval \<Rightarrow> ByteInterval \<Rightarrow> int" where
  "ByteInterval_Match i n =
     (if Start i \<le> End n \<and> End i \<ge> Start n then 0 else if Start i > End n then 1 else -1)"

interpretation interval: tree_val ByteInterval_Comp
proof
  fix x y z :: ByteInterval
  show "ByteInterval_Comp x y = 0 \<longleftrightarrow> x = y" by (auto simp: ByteInterval_Comp_def)
  show "ByteInterval_Comp x y < 0 \<longleftrightarrow> ByteInterval_Comp y x > 0" by (auto simp: ByteInterval_Comp_def)
  show "ByteInterval_Comp x y < 0 \<Longrightarrow> ByteInterval_Comp y z < 0 \<Longrightarrow> ByteInterval_Comp x z < 0"
    by (auto simp: ByteInterval_Comp_def split: if_splits)
qed

text \<open>Intervals that do not overlap are searched completely.\<close>

definition apart :: "ByteInterval set \<Rightarrow> bool" where
  "apart G \<longleftrightarrow> (\<forall>g \<in> G. Start g < End g) \<and> (\<forall>g \<in> G. \<forall>h \<in> G. g \<noteq> h \<longrightarrow> End g < Start h \<or> End h < Start g)"

lemma apart_less: "apart G \<Longrightarrow> g \<in> G \<Longrightarrow> h \<in> G \<Longrightarrow> ByteInterval_Comp g h < 0 \<Longrightarrow> End g < Start h"
  by (force simp: apart_def ByteInterval_Comp_def split: if_splits)

lemma Match_ok:
  assumes "btree_ok ByteInterval_Comp t" "apart (btree_set t)"
  shows "Match ByteInterval_Match cond t = filter (\<lambda>g. Start g \<le> End cond \<and> Start cond \<le> End g) (values_of (root t))"
    and "set (Match ByteInterval_Match cond t) = {g \<in> btree_set t. Start g \<le> End cond \<and> Start cond \<le> End g}"
    and "sorted_wrt (\<lambda>g h. End g < Start h) (Match ByteInterval_Match cond t)"
proof -
  have asc: "sorted_wrt (\<lambda>g h. ByteInterval_Comp g h < 0) (values_of (root t))"
    using assms(1) by (simp add: btree_ok_def)
  then have s: "sorted_wrt (\<lambda>g h. End g < Start h) (values_of (root t))"
    by (rule sorted_wrt_mono_rel[rotated]) (use assms(2) apart_less in \<open>auto simp: btree_set_def\<close>)
  have p: "\<forall>g \<in> set (values_of (root t)). Start g < End g"
    using assms(2) by (auto simp: apart_def btree_set_def)
  have "match_sorted ByteInterval_Match cond (values_of (root t))"
    unfolding match_sorted_def using s
    by (rule sorted_wrt_mono_rel[rotated]) (use p in \<open>auto simp: ByteInterval_Match_def split: if_splits\<close>)
  then show e: "Match ByteInterval_Match cond t = filter (\<lambda>g. Start g \<le> End cond \<and> Start cond \<le> End g) (values_of (root t))"
    unfolding Match_def by (simp add: match_node_filter) (rule filter_cong, auto simp: ByteInterval_Match_def)
  show "set (Match ByteInterval_Match cond t) = {g \<in> btree_set t. Start g \<le> End cond \<and> Start cond \<le> End g}"
    by (auto simp: e btree_set_def)
  show "sorted_wrt (\<lambda>g h. End g < Start h) (Match ByteInterval_Match cond t)"
    unfolding e by (rule sorted_wrt_filter[OF s])
qed

section \<open>Refinement of sets\<close>

text \<open>A sequence of updates of a tree, and of the set it stands for.\<close>

datatype update = Ins ByteInterval | Del ByteInterval

fun run_updates :: "update list \<Rightarrow> ByteInterval Btree \<Rightarrow> ByteInterval Btree outcome" where
  "run_updates [] t = Done t"
| "run_updates (Ins v # us) t = bind_outcome (Insert ByteInterval_Comp v t) (run_updates us)"
| "run_updates (Del v # us) t = bind_outcome (Delete ByteInterval_Comp v t) (run_updates us)"

fun set_updates :: "update list \<Rightarrow> ByteInterval set \<Rightarrow> ByteInterval set" where
  "set_updates [] G = G"
| "set_updates (Ins v # us) G = set_updates us (Set.insert v G)"
| "set_updates (Del v # us) G = set_updates us (G - {v})"

lemma run_updates_simulates:
  assumes "btree_ok ByteInterval_Comp t"
  shows "\<exists>t'. run_updates us t = Done t' \<and> btree_ok ByteInterval_Comp t' \<and> btree_set t' = set_updates us (btree_set t)"
  using assms
proof (induction us arbitrary: t)
  case (Cons u us)
  show ?case
  proof (cases u)
    case (Ins v)
    obtain t1 where "Insert ByteInterval_Comp v t = Done t1" "btree_ok ByteInterval_Comp t1"
      "btree_set t1 = Set.insert v (btree_set t)" by (rule interval.Insert_ok[OF Cons.prems])
    then show ?thesis using Cons.IH[of t1] by (simp add: Ins)
  next
    case (Del v)
    obtain t1 where "Delete ByteInterval_Comp v t = Done t1" "btree_ok ByteInterval_Comp t1"
      "btree_set t1 = btree_set t - {v}" by (rule interval.Delete_ok[OF Cons.prems])
    then show ?thesis using Cons.IH[of t1] by (simp add: Del)
  qed
qed simp

text \<open>
  (C33) The AVL tree implements a set of intervals: any sequence of insertions and deletions
  runs without following a nil pointer, and afterwards \<open>Values\<close> lists the set in ascending order,
  \<open>Len\<close> is its size, \<open>Contains\<close> decides membership, and the height of the tree is at most twice the
  logarithm of its size. If the intervals are apart from each other, \<open>Match\<close> finds exactly those
  that overlap or touch the given one, in ascending order, although it visits only a part of the tree.
\<close>

theorem interval_tree_refines_set:
  "\<exists>t vs t'. run_updates us New = Done t \<and> Values t = Done (vs, t')
     \<and> set vs = set_updates us {} \<and> sorted_wrt (\<lambda>g h. ByteInterval_Comp g h < 0) vs
     \<and> btree_len t = int (card (set_updates us {}))
     \<and> (\<forall>v. Contains ByteInterval_Comp v t \<longleftrightarrow> v \<in> set_updates us {})
     \<and> 2 ^ nat (height (root t)) \<le> (card (set_updates us {}) + 1) ^ 2
     \<and> (apart (set_updates us {}) \<longrightarrow> (\<forall>cond. Match ByteInterval_Match cond t
          = filter (\<lambda>g. Start g \<le> End cond \<and> Start cond \<le> End g) vs))"
proof -
  obtain t where t: "run_updates us New = Done t" "btree_ok ByteInterval_Comp t" "btree_set t = set_updates us {}"
    using run_updates_simulates[OF New_ok(1)] New_ok(2) by metis
  obtain t' where v: "Values t = Done (values_of (root t), t')" using Values_ok[OF t(2)] by blast
  have d: "length (values_of (root t)) = card (set_updates us {})"
    using t(2) distinct_card[OF interval.ascending_distinct]
    by (metis btree_ok_def btree_set_def interval.ascending_def t(3))
  have "2 ^ nat (height (root t)) \<le> (length (values_of (root t)) + 1) ^ 2"
    using t(2) by (intro avl_height) (simp add: btree_ok_def)
  then show ?thesis
    using t v d Match_ok(1)[OF t(2)] interval.Contains_iff[OF t(2)]
    by (intro exI[of _ t] exI[of _ "values_of (root t)"] exI[of _ t']) (simp add: btree_ok_def btree_set_def)
qed

theorem interval_tree_refines_set_witness:
  "\<exists>t vs t'. run_updates [Ins \<lparr>Start = 7, End = 9\<rparr>, Ins \<lparr>Start = 0, End = 3\<rparr>, Ins \<lparr>Start = 4, End = 5\<rparr>, Del \<lparr>Start = 4, End = 5\<rparr>] New = Done t
     \<and> Values t = Done (vs, t') \<and> set vs = {\<lparr>Start = 0, End = 3\<rparr>, \<lparr>Start = 7, End = 9\<rparr>}
     \<and> Match ByteInterval_Match \<lparr>Start = 3, End = 6\<rparr> t = filter (\<lambda>g. Start g \<le> 6 \<and> 3 \<le> End g) vs"
proof -
  let ?us = "[Ins \<lparr>Start = 7, End = 9\<rparr>, Ins \<lparr>Start = 0, End = 3\<rparr>, Ins \<lparr>Start = 4, End = 5\<rparr>, Del \<lparr>Start = 4, End = 5\<rparr>]"
  have s: "set_updates ?us {} = {\<lparr>Start = 0, End = 3\<rparr>, \<lparr>Start = 7, End = 9\<rparr>}" by auto
  then have a: "apart (set_updates ?us {})" by (simp add: apart_def)
  obtain t vs t' where "run_updates ?us New = Done t" "Values t = Done (vs, t')" "set vs = set_updates ?us {}"
    "\<forall>cond. Match ByteInterval_Match cond t = filter (\<lambda>g. Start g \<le> End cond \<and> Start cond \<le> End g) vs"
    using interval_tree_refines_set[of ?us] a by blast
  then show ?thesis by (intro exI[of _ t] exI[of _ vs] exI[of _ t']) (simp add: s)
qed

text \<open>
  The reverse traversal uses the forward one for both subtrees, so that it does not visit the values
  in descending order; and an iterator that answers that it wants to stop in the left subtree is still
  called for the rest.
\<close>

lemma descend_not_descending:
  "\<exists>t. run_updates (map (\<lambda>n. Ins \<lparr>Start = n, End = n + 1\<rparr>) [1, 2, 3, 4, 5, 6, 7]) New = Done t
     \<and> Descend (\<lambda>n i vs. (vs @ [Start (Value n)], True)) t [] = [5, 6, 7, 4, 1, 2, 3]
     \<and> Ascend (\<lambda>n i vs. (vs @ [Start (Value n)], False)) t [] = [1, 2, 4]"
  by (intro exI conjI) code_simp+

end
