(* ===== verification/Spec2Isabelle.thy ===== *)
theory Spec2Isabelle
  imports Hop Quic_Frame_Parser Quic_Flow_Control Avl_Tree
begin

text \<open>
  A verification library for GOST, a proxy written in Go, with the forks of \<open>quic-go\<close> and
  \<open>webtransport-go\<close> that its workspace builds. All paths below are under \<open>src/\<close>.

  \<^bold>\<open>The program.\<close> A service accepts a connection, an \<^emph>\<open>admission\<close> controller decides whether the client may use
  the service, a handler reads the target address, a \<^emph>\<open>bypass\<close> decides whether the target skips the
  proxy chain, and otherwise the chain is built hop by hop: each \<^emph>\<open>hop\<close> picks one of its nodes by
  the rules of the nodes, their filters and a \<^emph>\<open>selector\<close>. Components find each other by name in
  \<^emph>\<open>registries\<close>. QUIC is one of the transports: packets are parsed into \<^emph>\<open>frames\<close>, stream data is put
  into order, acknowledged and \<^emph>\<open>flow controlled\<close>.

  \<^bold>\<open>The shared layers.\<close>
  \<^item> \<open>Gost_Prelude\<close>: the part of Go and of its standard library that the code uses (strings, splitting,
    number parsing, the outcome of a call that may panic), with the lemma collections.
  \<^item> \<open>Netip\<close>: addresses and prefixes of \<open>net\<close> and \<open>net/netip\<close>.
  \<^item> \<open>Go_Float\<close>: \<open>float64\<close> and \<open>float32\<close> as rationals rounded after every operation, ties to even.
  \<^item> \<open>Loader\<close>: the answers of external loaders; the loaders themselves (files, redis, HTTP) are
    parameters.

  \<^bold>\<open>The packages of \<open>x/\<close>.\<close>
  \<^item> \<open>Net_Addr\<close> (\<open>x/internal/net/addr.go\<close>): port ranges, address ranges and the enumeration of the
    addresses of a listening range. The enumeration is a loop with fuel; it is shown to end.
  \<^item> \<open>Cidr_Trie\<close>, \<open>Matcher\<close> (\<open>x/internal/matcher\<close>): the prefix trie and the matchers built from
    pattern lists. The trie answers exactly when one of the inserted prefixes contains the address.
  \<^item> \<open>Bypass\<close>, \<open>Admission\<close>: the decision of a controller from its pattern lists in whitelist and
    blacklist mode, of groups, and the reload of the lists.
  \<^item> \<open>Metadata\<close>: the case-insensitive key-value store and its typed readers.
  \<^item> \<open>Selector\<close>: filters by failure marker, round robin, random, FIFO, hash, weighted and
    lowest-latency strategies, and the parallel dialer as a transition system.
  \<^item> \<open>Registry\<close>: named objects, and the wrappers that look an object up on every call.
  \<^item> \<open>Rules\<close>: lexer-level rule expressions of node matchers, compared with their boolean meaning.
  \<^item> \<open>Hop\<close>: the choice of a node (bypass, matcher, priority, selector) and the reload of the nodes.

  \<^bold>\<open>QUIC (\<open>quic-go/\<close>).\<close>
  \<^item> \<open>Quic_Varint\<close>, \<open>Quic_Protocol\<close>: variable-length integers, truncated packet numbers, stream ids.
  \<^item> \<open>Quic_Frames\<close>, \<open>Quic_Frame_Laws\<close>, \<open>Quic_Ack\<close>, \<open>Quic_Frame_Parser\<close>: all frames of the wire
    format, the laws each kind obeys (locale), ACK ranges, and the parser of a packet's payload.
  \<^item> \<open>Quic_Rtt\<close>: the round trip estimator, with durations as integers of nanoseconds.
  \<^item> \<open>Quic_Flow_Control\<close>: the controllers of connection and streams, as a transition system whose
    steps are the methods; \<open>stream_operation\<close> is the contract that every method fulfils.
  \<^item> \<open>Avl_Tree\<close>: the balanced tree that stores the gaps of the frame sorter, against the set it stores.

  \<^bold>\<open>How code and model correspond.\<close> A struct is a record with the fields of the struct, a variant is a
  datatype, a method is a function from the receiver to the receiver after the call. Machine
  integers are words where wrapping matters and integers where the theory shows or assumes their
  range. A call that panics yields \<open>Panic\<close>, an error is \<open>Inl\<close> or \<open>None\<close>. Mutexes are not modelled:
  a critical section is one step. Random numbers, clocks, loggers, plugins and third-party packages
  are arguments. A loop without structural recursion has a termination proof, or carries fuel; for
  each fuelled loop a lemma states how much fuel is enough.

  \<^bold>\<open>Not modelled.\<close> Input and output (listeners, dialers, connectors, handlers, services, the
  management API, metrics, recorders, loggers), cryptography and TLS (\<open>handshake\<close>, \<open>qtls\<close>, the AEAD
  packet protection), the event loops of connections and servers, which are concurrent and
  timer-driven, configuration decoding, and the code that only wraps third-party packages. The
  manifest lists them one by one.
\<close>

end
